theory Spec2Isabelle
  imports Main
begin

section \<open>Python strings\<close>

text \<open>
  A Python \<^verbatim>\<open>str\<close> is a sequence of Unicode code points. It is modelled as the list of
  their numbers (\<^verbatim>\<open>ord\<close>), so every \<^verbatim>\<open>str\<close> is a value of \<open>pystr\<close>. \<open>py s\<close> is the
  \<^verbatim>\<open>str\<close> written as the ASCII literal \<open>s\<close>.
\<close>

type_synonym pystr = "int list"

definition py :: "string \<Rightarrow> pystr" where
  "py s = map of_char s"

text \<open>
  Matching one character of a \<^verbatim>\<open>str\<close> against a literal ASCII character \<open>p\<close> of a
  pattern compiled with \<^verbatim>\<open>re.IGNORECASE\<close>. The engine compares the lower-case form of
  the text character with that of \<open>p\<close> and with the case fixes of that form. A letter
  matches its capital and its small form. Besides these, \<^verbatim>\<open>s\<close> matches U+017F (long s,
  383), \<^verbatim>\<open>i\<close> matches U+0130 and U+0131 (capital I with dot, 304; dotless i, 305) and
  \<^verbatim>\<open>k\<close> matches U+212A (Kelvin sign, 8490): the code points outside ASCII whose
  lower-case form, or a case fix of it, is an ASCII letter. A character that is no letter
  matches itself only. \<open>ascii_lower\<close> maps \<^verbatim>\<open>A-Z\<close> to \<^verbatim>\<open>a-z\<close> and leaves every other
  code point alone.
\<close>

definition ascii_lower :: "int \<Rightarrow> int" where
  "ascii_lower c = (if 65 \<le> c \<and> c \<le> 90 then c + 32 else c)"

definition literal_matches :: "int \<Rightarrow> int \<Rightarrow> bool" where
  "literal_matches p c =
     (let lo = ascii_lower p
      in ascii_lower c = lo \<or>
         (lo = 115 \<and> c = 383) \<or>
         (lo = 105 \<and> (c = 304 \<or> c = 305)) \<or>
         (lo = 107 \<and> c = 8490))"

text \<open>\<open>ci_startswith p t\<close>: the text \<open>t\<close> begins with the literal \<open>p\<close>, case ignored.\<close>

definition ci_startswith :: "pystr \<Rightarrow> pystr \<Rightarrow> bool" where
  "ci_startswith p t =
     (length p \<le> length t \<and> list_all2 literal_matches p (take (length p) t))"

text \<open>
  \<^verbatim>\<open>match.group(1).lower()\<close> in \<^verbatim>\<open>_extract_agreement\<close>. Group 1 of \<^verbatim>\<open>AGREE_TAG\<close>
  holds the characters that matched \<^verbatim>\<open>true\<close> or \<^verbatim>\<open>false\<close>: ASCII letters and,
  for the \<^verbatim>\<open>s\<close>, U+017F (lemma \<open>AGREE_TAG_match_group\<close> below). On these
  \<^verbatim>\<open>str.lower\<close> maps a capital to its small letter and leaves the small letters and
  U+017F as they are, which is \<open>ascii_lower\<close> on each character.
\<close>

definition group1_lower :: "pystr \<Rightarrow> pystr" where
  "group1_lower g = map ascii_lower g"

text \<open>
  \<^verbatim>\<open>str.strip()\<close> removes from both ends the characters for which \<^verbatim>\<open>str.isspace\<close>
  holds. These are 29 code points: tab to carriage return (9 to 13), the separators 28 to
  31, space (32), next line (133), no-break space (160), U+1680 (5760), U+2000 to U+200A
  (8192 to 8202), U+2028 and U+2029 (8232, 8233), U+202F (8239), U+205F (8287) and
  U+3000 (12288).
\<close>

definition py_isspace :: "int \<Rightarrow> bool" where
  "py_isspace c =
     ((9 \<le> c \<and> c \<le> 13) \<or> (28 \<le> c \<and> c \<le> 32) \<or> c = 133 \<or> c = 160 \<or>
      c = 5760 \<or> (8192 \<le> c \<and> c \<le> 8202) \<or> c = 8232 \<or> c = 8233 \<or> c = 8239 \<or>
      c = 8287 \<or> c = 12288)"

definition py_strip :: "pystr \<Rightarrow> pystr" where
  "py_strip s = rev (dropWhile py_isspace (rev (dropWhile py_isspace s)))"

section \<open>Signal extraction\<close>

text \<open>
  \<^verbatim>\<open>AGREE_TAG = re.compile(r"<AGREE>(true|false)</AGREE>", re.IGNORECASE)\<close>.
  \<open>AGREE_TAG_match\<close> is the match anchored at the start of the text; it returns group 1.
  \<open>AGREE_TAG_search\<close> is \<^verbatim>\<open>AGREE_TAG.search\<close>: the anchored match is tried at each
  start position from the left, and the first success wins.
\<close>

definition AGREE_TAG_match :: "pystr \<Rightarrow> pystr option" where
  "AGREE_TAG_match t =
     (if ci_startswith (py ''<AGREE>'') t then
        (let rest = drop 7 t
         in if ci_startswith (py ''true'') rest \<and> ci_startswith (py ''</AGREE>'') (drop 4 rest)
            then Some (take 4 rest)
            else if ci_startswith (py ''false'') rest \<and> ci_startswith (py ''</AGREE>'') (drop 5 rest)
            then Some (take 5 rest)
            else None)
      else None)"

fun AGREE_TAG_search :: "pystr \<Rightarrow> pystr option" where
  "AGREE_TAG_search [] = AGREE_TAG_match []"
| "AGREE_TAG_search (c # cs) =
     (case AGREE_TAG_match (c # cs) of
        Some g \<Rightarrow> Some g
      | None \<Rightarrow> AGREE_TAG_search cs)"

text \<open>
  \<^verbatim>\<open>FINAL_TAG = re.compile(r"<FINAL>(.*?)</FINAL>", re.IGNORECASE | re.DOTALL)\<close>.
  With \<^verbatim>\<open>re.DOTALL\<close> the dot matches every character, newlines too. The lazy group
  \<^verbatim>\<open>(.*?)\<close> first tries the empty string and grows by one character each time the closing
  tag does not follow: \<open>lazy_until_close\<close> returns the shortest prefix after which the
  closing tag stands, or \<open>None\<close> when the closing tag never follows.
\<close>

fun lazy_until_close :: "pystr \<Rightarrow> pystr option" where
  "lazy_until_close [] = (if ci_startswith (py ''</FINAL>'') [] then Some [] else None)"
| "lazy_until_close (c # cs) =
     (if ci_startswith (py ''</FINAL>'') (c # cs) then Some []
      else map_option ((#) c) (lazy_until_close cs))"

definition FINAL_TAG_match :: "pystr \<Rightarrow> pystr option" where
  "FINAL_TAG_match t =
     (if ci_startswith (py ''<FINAL>'') t then lazy_until_close (drop 7 t) else None)"

fun FINAL_TAG_search :: "pystr \<Rightarrow> pystr option" where
  "FINAL_TAG_search [] = FINAL_TAG_match []"
| "FINAL_TAG_search (c # cs) =
     (case FINAL_TAG_match (c # cs) of
        Some g \<Rightarrow> Some g
      | None \<Rightarrow> FINAL_TAG_search cs)"

text \<open>
  \<^verbatim>\<open>_extract_agreement\<close> and \<^verbatim>\<open>_extract_final_answer\<close> of \<^verbatim>\<open>DebateOrchestrator\<close>.
\<close>

definition extract_agreement :: "pystr \<Rightarrow> bool option" where
  "extract_agreement response =
     (case AGREE_TAG_search response of
        Some g \<Rightarrow> Some (group1_lower g = py ''true'')
      | None \<Rightarrow> None)"

definition extract_final_answer :: "pystr \<Rightarrow> pystr option" where
  "extract_final_answer response =
     (case FINAL_TAG_search response of
        Some g \<Rightarrow> Some (py_strip g)
      | None \<Rightarrow> None)"

text \<open>
  The tags as the specification describes them, by position. \<open>occurs_at text i p\<close>: the
  literal \<open>p\<close> stands in \<open>text\<close> at offset \<open>i\<close>, case ignored. \<open>agree_tag_at text i b\<close>:
  an agreement tag wrapping the token for \<open>b\<close> stands at offset \<open>i\<close>.
  \<open>final_tag_at text i inner\<close>: a finalization tag with the content \<open>inner\<close> stands at
  offset \<open>i\<close>.
\<close>

definition occurs_at :: "pystr \<Rightarrow> nat \<Rightarrow> pystr \<Rightarrow> bool" where
  "occurs_at text i p = ci_startswith p (drop i text)"

definition agree_tag_at :: "pystr \<Rightarrow> nat \<Rightarrow> bool \<Rightarrow> bool" where
  "agree_tag_at text i b =
     occurs_at text i ((py ''<AGREE>'') @ (if b then (py ''true'') else (py ''false'')) @ (py ''</AGREE>''))"

definition final_tag_at :: "pystr \<Rightarrow> nat \<Rightarrow> pystr \<Rightarrow> bool" where
  "final_tag_at text i inner =
     (occurs_at text i (py ''<FINAL>'') \<and>
      take (length inner) (drop (i + 7) text) = inner \<and>
      occurs_at text (i + 7 + length inner) (py ''</FINAL>''))"

section \<open>The debate orchestrator\<close>

text \<open>
  \<^verbatim>\<open>DebateStatus\<close>, \<^verbatim>\<open>DebateTurn\<close> and \<^verbatim>\<open>DebateResult\<close> of \<^verbatim>\<open>orchestrator.py\<close>.
  The fields that hold wall-clock readings (\<^verbatim>\<open>timestamp\<close>, \<^verbatim>\<open>timing\<close>,
  \<^verbatim>\<open>total_time\<close>, \<^verbatim>\<open>timing_summary\<close>) and the token estimate are left out: the
  protocol never reads them. \<^verbatim>\<open>PaceMode\<close> is the literal type of \<^verbatim>\<open>settings.py\<close>;
  \<^verbatim>\<open>get_pacing_profile\<close> raises for any other value before a result exists.
\<close>

datatype DebateStatus = NOT_STARTED | IN_PROGRESS | COMPLETED | ERROR | TIMEOUT

datatype PaceMode = Slow | Medium | Fast

record DebateTurn =
  speaker :: pystr
  content :: pystr
  agreement_flag :: "bool option"

record DebateResult =
  status :: DebateStatus
  expression :: pystr
  final_answer :: "pystr option"
  rounds :: int
  turns :: "DebateTurn list"
  error_message :: "pystr option"
  pace_mode :: PaceMode

record Settings =
  settings_max_rounds :: int

text \<open>
  The two model clients are outside the program. A call through the pace controller
  either returns the response text (\<open>Inr\<close>) or raises, after the retries, an exception
  whose \<^verbatim>\<open>str\<close> is the given text (\<open>Inl\<close>). Each round makes at most one call at each
  of the three call sites, so a run is fixed by the outcome of each call site in each round
  (\<^verbatim>\<open>round_num\<close>, from 0): Terrence's turn, Neil's turn, and Terrence's finalization
  turn. The prompts passed to the clients do not appear: the outcomes are arbitrary.
  An exception raised inside \<^verbatim>\<open>execute_turn\<close> (by the client or by the progress callback)
  is an outcome \<open>Inl\<close> of that call. The sleeps of the pace controller do not touch the
  result; the progress callback of the inter-turn gap and the telemetry logger are taken
  not to raise, and are left out.
\<close>

type_synonym reply = "pystr + pystr"

record providers =
  terrence_reply :: "int \<Rightarrow> reply"
  neil_reply :: "int \<Rightarrow> reply"
  final_reply :: "int \<Rightarrow> reply"

text \<open>
  \<^verbatim>\<open>if final_answer:\<close> tests an \<^verbatim>\<open>Optional[str]\<close> for truth: \<^verbatim>\<open>None\<close> and the
  empty string are false.
\<close>

definition truthy :: "pystr option \<Rightarrow> bool" where
  "truthy a = (case a of None \<Rightarrow> False | Some s \<Rightarrow> s \<noteq> [])"

text \<open>\<^verbatim>\<open>str\<close> of an \<^verbatim>\<open>int\<close>, as the f-string of the timeout message formats it.\<close>

definition digit_char :: "nat \<Rightarrow> char" where
  "digit_char d = ''0123456789'' ! d"

fun str_nat :: "nat \<Rightarrow> string" where
  "str_nat n = (if n < 10 then [digit_char n] else str_nat (n div 10) @ [digit_char (n mod 10)])"

declare str_nat.simps [simp del]

definition str_int :: "int \<Rightarrow> string" where
  "str_int i = (if i < 0 then CHR ''-'' # str_nat (nat (- i)) else str_nat (nat i))"

text \<open>
  One pass through the body of \<^verbatim>\<open>for round_num in range(max_rounds)\<close> in
  \<^verbatim>\<open>DebateOrchestrator.debate\<close> (and, step for step, in \<^verbatim>\<open>debate_sync\<close>). The body
  ends by falling through to the next round, by \<^verbatim>\<open>break\<close>, or by an exception; the
  result object is mutated in place, so what was recorded before an exception stays.
\<close>

datatype flow = Continue | Break | Raise pystr

definition terrence_turn :: "pystr \<Rightarrow> DebateTurn" where
  "terrence_turn response =
     \<lparr>speaker = (py ''Terrence''), content = response, agreement_flag = None\<rparr>"

definition neil_turn :: "pystr \<Rightarrow> DebateTurn" where
  "neil_turn response =
     \<lparr>speaker = (py ''Neil''), content = response, agreement_flag = extract_agreement response\<rparr>"

definition round_body :: "providers \<Rightarrow> int \<Rightarrow> DebateResult \<Rightarrow> flow \<times> DebateResult" where
  "round_body p round_num result0 =
     (let result1 = result0\<lparr>rounds := round_num + 1\<rparr>
      in case terrence_reply p round_num of
           Inl e \<Rightarrow> (Raise e, result1)
         | Inr terrence_response \<Rightarrow>
             (let result2 = result1\<lparr>turns := turns result1 @ [terrence_turn terrence_response]\<rparr>;
                  final_answer1 = extract_final_answer terrence_response
              in if truthy final_answer1
                 then (Break, result2\<lparr>final_answer := final_answer1, status := COMPLETED\<rparr>)
                 else
                   (case neil_reply p round_num of
                      Inl e \<Rightarrow> (Raise e, result2)
                    | Inr neil_response \<Rightarrow>
                        (let agreement = extract_agreement neil_response;
                             result3 = result2\<lparr>turns := turns result2 @ [neil_turn neil_response]\<rparr>
                         in if agreement = Some True
                            then
                              (case final_reply p round_num of
                                 Inl e \<Rightarrow> (Raise e, result3)
                               | Inr final_response \<Rightarrow>
                                   (let result4 = result3\<lparr>turns := turns result3 @
                                                     [terrence_turn final_response]\<rparr>;
                                        final_answer2 = extract_final_answer final_response
                                    in if truthy final_answer2
                                       then (Break, result4\<lparr>final_answer := final_answer2,
                                                            status := COMPLETED\<rparr>)
                                       else (Break, result4\<lparr>status := ERROR,
                                               error_message := Some
                                                 (py ''Terrence failed to provide final answer after agreement'')\<rparr>)))
                            else (Continue, result3)))))"

text \<open>
  The loop from \<open>round_num\<close> on. It returns the exception that left it, if any, and
  the result object as the loop left it.
\<close>

function debate_loop ::
  "providers \<Rightarrow> int \<Rightarrow> int \<Rightarrow> DebateResult \<Rightarrow> pystr option \<times> DebateResult" where
  "debate_loop p max_rounds round_num result0 =
     (if round_num < max_rounds then
        (case round_body p round_num result0 of
           (Continue, r) \<Rightarrow> debate_loop p max_rounds (round_num + 1) r
         | (Break, r) \<Rightarrow> (None, r)
         | (Raise e, r) \<Rightarrow> (Some e, r))
      else (None, result0))"
  by pat_completeness auto
termination
  by (relation "measure (\<lambda>(p, max_rounds, round_num, result0). nat (max_rounds - round_num))") auto

declare debate_loop.simps [simp del]

text \<open>
  \<^verbatim>\<open>DebateOrchestrator.debate\<close>: the default of \<^verbatim>\<open>max_rounds\<close>
  (\<^verbatim>\<open>if max_rounds is None: max_rounds = settings.max_rounds\<close>), the fresh result, the
  loop, the check after the loop, and the \<^verbatim>\<open>except Exception\<close> handler.
\<close>

definition effective_max_rounds :: "Settings \<Rightarrow> int option \<Rightarrow> int" where
  "effective_max_rounds settings max_rounds_arg =
     (case max_rounds_arg of None \<Rightarrow> settings_max_rounds settings | Some m \<Rightarrow> m)"

definition debate ::
  "Settings \<Rightarrow> providers \<Rightarrow> pystr \<Rightarrow> int option \<Rightarrow> PaceMode \<Rightarrow> DebateResult" where
  "debate settings p expr max_rounds_arg pace =
     (let max_rounds = effective_max_rounds settings max_rounds_arg;
          result0 = \<lparr>status = IN_PROGRESS, expression = expr, final_answer = None, rounds = 0,
                     turns = [], error_message = None, pace_mode = pace\<rparr>
      in case debate_loop p max_rounds 0 result0 of
           (None, r) \<Rightarrow>
             if status r = IN_PROGRESS
             then r\<lparr>status := TIMEOUT,
                    error_message := Some ((py ''Debate did not reach agreement within '') @
                                           py (str_int max_rounds) @ (py '' rounds''))\<rparr>
             else r
         | (Some e, r) \<Rightarrow> r\<lparr>status := ERROR, error_message := Some e\<rparr>)"

section \<open>Describing a run\<close>

text \<open>
  \<open>round_continues p k\<close>: in round \<open>k\<close> both clients answer, Terrence's response holds no
  final answer that counts, and Neil's response does not carry agreement \<open>true\<close>; the round
  records its two turns and the loop goes on. \<open>round_turns p k\<close> are the two turns such a
  round records, and \<open>history p k\<close> the turns of the rounds \<open>0\<close> to \<open>k - 1\<close>.
\<close>

definition round_continues :: "providers \<Rightarrow> int \<Rightarrow> bool" where
  "round_continues p k =
     (case terrence_reply p k of
        Inl e \<Rightarrow> False
      | Inr t \<Rightarrow>
          \<not> truthy (extract_final_answer t) \<and>
          (case neil_reply p k of
             Inl e \<Rightarrow> False
           | Inr n \<Rightarrow> extract_agreement n \<noteq> Some True))"

definition round_turns :: "providers \<Rightarrow> int \<Rightarrow> DebateTurn list" where
  "round_turns p k =
     (case terrence_reply p k of
        Inl e \<Rightarrow> []
      | Inr t \<Rightarrow> (case neil_reply p k of Inl e \<Rightarrow> [] | Inr n \<Rightarrow> [terrence_turn t, neil_turn n]))"

definition history :: "providers \<Rightarrow> int \<Rightarrow> DebateTurn list" where
  "history p k = concat (map (round_turns p) [0..k - 1])"

text \<open>\<open>agreeing x\<close>: the turn \<open>x\<close> is a turn of the Critic whose agreement flag is true.\<close>

definition agreeing :: "DebateTurn \<Rightarrow> bool" where
  "agreeing x = (speaker x = (py ''Neil'') \<and> agreement_flag x = Some True)"

text \<open>
  \<open>in_progress_at expr pace p k\<close>: the result object at the head of round \<open>k\<close> when every
  earlier round has continued. \<open>timeout_message m\<close>: the text set when the loop runs out.
\<close>

definition in_progress_at :: "pystr \<Rightarrow> PaceMode \<Rightarrow> providers \<Rightarrow> int \<Rightarrow> DebateResult" where
  "in_progress_at expr pace p k =
     \<lparr>status = IN_PROGRESS, expression = expr, final_answer = None, rounds = k,
      turns = history p k, error_message = None, pace_mode = pace\<rparr>"

definition timeout_message :: "int \<Rightarrow> pystr" where
  "timeout_message m = (py ''Debate did not reach agreement within '') @ py (str_int m) @ (py '' rounds'')"

definition finalize_failure :: pystr where
  "finalize_failure = (py ''Terrence failed to provide final answer after agreement'')"

section \<open>Scripted runs\<close>

text \<open>
  Scripted clients in the manner of the mocks of \<^verbatim>\<open>tests/test_protocol.py\<close>.
  \<open>mock_flow_complete\<close>: Terrence states an answer without tags, Neil disagrees in the
  first two rounds and agrees in the third, and Terrence finalizes with a tagged answer.
  \<open>mock_never_agrees\<close>: Neil disagrees in every round. The others differ from these in
  one response each.
\<close>

definition mock_flow_complete :: providers where
  "mock_flow_complete =
     \<lparr>terrence_reply = (\<lambda>r. Inr (py ''I calculate 2 + 3 = 5'')),
      neil_reply = (\<lambda>r. if r < 2 then Inr (py ''<AGREE>false</AGREE> Show the steps.'')
                         else Inr (py ''<AGREE>true</AGREE> Correct.'')),
      final_reply = (\<lambda>r. Inr (py ''<FINAL>5</FINAL>''))\<rparr>"

definition mock_never_agrees :: providers where
  "mock_never_agrees =
     \<lparr>terrence_reply = (\<lambda>r. Inr (py ''I calculate 2 + 3 = 5'')),
      neil_reply = (\<lambda>r. Inr (py ''<AGREE>false</AGREE> I still disagree.'')),
      final_reply = (\<lambda>r. Inl (py ''not called''))\<rparr>"

definition mock_final_without_tag :: providers where
  "mock_final_without_tag =
     \<lparr>terrence_reply = (\<lambda>r. Inr (py ''I calculate 2 + 3 = 5'')),
      neil_reply = (\<lambda>r. Inr (py ''<AGREE>true</AGREE> Correct.'')),
      final_reply = (\<lambda>r. Inr (py ''The answer is 5''))\<rparr>"

definition mock_final_empty_tag :: providers where
  "mock_final_empty_tag =
     \<lparr>terrence_reply = (\<lambda>r. Inr (py ''I calculate 2 + 3 = 5'')),
      neil_reply = (\<lambda>r. Inr (py ''<AGREE>true</AGREE> Correct.'')),
      final_reply = (\<lambda>r. Inr (py ''<FINAL></FINAL>''))\<rparr>"

definition mock_final_blank_tag :: providers where
  "mock_final_blank_tag =
     \<lparr>terrence_reply = (\<lambda>r. Inr (py ''I calculate 2 + 3 = 5'')),
      neil_reply = (\<lambda>r. Inr (py ''<AGREE>true</AGREE> Correct.'')),
      final_reply = (\<lambda>r. Inr (py ''<FINAL>   </FINAL>''))\<rparr>"

definition mock_early_final :: providers where
  "mock_early_final =
     \<lparr>terrence_reply = (\<lambda>r. Inr (py ''2 + 3 = 5. <FINAL>5</FINAL>'')),
      neil_reply = (\<lambda>r. Inr (py ''<AGREE>false</AGREE> I still disagree.'')),
      final_reply = (\<lambda>r. Inl (py ''not called''))\<rparr>"

definition mock_early_empty_final :: providers where
  "mock_early_empty_final =
     \<lparr>terrence_reply = (\<lambda>r. Inr (py ''<FINAL></FINAL>'')),
      neil_reply = (\<lambda>r. Inr (py ''<AGREE>false</AGREE> I still disagree.'')),
      final_reply = (\<lambda>r. Inl (py ''not called''))\<rparr>"

definition test_settings :: Settings where
  "test_settings = \<lparr>settings_max_rounds = 12\<rparr>"

section \<open>Properties of the signal extractor\<close>

lemma length_py [simp]: "length (py s) = length s"
  by (simp add: py_def)

lemma py_eq_Nil [simp]: "py s = [] \<longleftrightarrow> s = []"
  by (simp add: py_def)

text \<open>
  The character matching and \<open>py_strip\<close> on sample inputs, and what \<open>py_strip\<close> removes:
  white space at both ends and nothing else.
\<close>

lemma literal_matches_examples:
  "literal_matches 65 97" "literal_matches 65 65" "literal_matches 97 65"
  "literal_matches 83 383" "literal_matches 73 304" "literal_matches 73 305"
  "literal_matches 75 8490"
  "\<not> literal_matches 65 192" "\<not> literal_matches 65 66" "\<not> literal_matches 69 383"
  "\<not> literal_matches 60 62" "\<not> literal_matches 47 15"
  by (simp_all add: literal_matches_def ascii_lower_def)

lemma literal_matches_no_letter:
  assumes "\<not> (65 \<le> p \<and> p \<le> 90)" and "\<not> (97 \<le> p \<and> p \<le> 122)"
  shows "literal_matches p c \<longleftrightarrow> c = p"
  using assms by (auto simp: literal_matches_def ascii_lower_def)

lemma py_strip_examples:
  "py_strip ([12288] @ py '' a b '' @ [8195, 10]) = py ''a b''"
  "py_strip (py ''   '') = []"
  "py_strip [173, 32] = [173]"
  by (simp_all add: py_def py_strip_def py_isspace_def)

lemma py_strip_decompose:
  "\<exists>a b. s = a @ py_strip s @ b \<and> (\<forall>c\<in>set a. py_isspace c) \<and> (\<forall>c\<in>set b. py_isspace c)"
proof -
  let ?m = "dropWhile py_isspace s"
  have 1: "s = takeWhile py_isspace s @ ?m" by simp
  have 2: "rev ?m = takeWhile py_isspace (rev ?m) @ dropWhile py_isspace (rev ?m)" by simp
  then have "?m = py_strip s @ rev (takeWhile py_isspace (rev ?m))"
    unfolding py_strip_def by (metis rev_append rev_rev_ident)
  with 1 have "s = takeWhile py_isspace s @ py_strip s @ rev (takeWhile py_isspace (rev ?m))"
    by simp
  moreover have "\<forall>c\<in>set (takeWhile py_isspace s). py_isspace c"
    by (auto dest: set_takeWhileD)
  moreover have "\<forall>c\<in>set (rev (takeWhile py_isspace (rev ?m))). py_isspace c"
    by (auto dest: set_takeWhileD)
  ultimately show ?thesis by blast
qed

lemma py_strip_ends:
  "py_strip s \<noteq> [] \<Longrightarrow> \<not> py_isspace (hd (py_strip s)) \<and> \<not> py_isspace (last (py_strip s))"
proof -
  assume ne: "py_strip s \<noteq> []"
  let ?m = "dropWhile py_isspace s"
  let ?d = "dropWhile py_isspace (rev ?m)"
  have d: "?d \<noteq> []" using ne by (simp add: py_strip_def)
  then have "\<not> py_isspace (hd ?d)" by (rule hd_dropWhile)
  then have l: "\<not> py_isspace (last (py_strip s))"
    using d by (simp add: py_strip_def last_rev)
  have "rev ?m \<noteq> []" using d by (metis dropWhile.simps(1))
  then have m: "?m \<noteq> []" by simp
  then have hm: "\<not> py_isspace (hd ?m)" by (rule hd_dropWhile)
  have "\<exists>a. rev ?m = a @ ?d" by (metis takeWhile_dropWhile_id)
  then obtain a where "rev ?m = a @ ?d" by blast
  then have "?m = rev ?d @ rev a" by (metis rev_append rev_rev_ident)
  then have "hd ?m = hd (rev ?d)" using d by (metis hd_append2 rev_is_Nil_conv)
  then show ?thesis using hm l by (simp add: py_strip_def)
qed

lemma ci_startswith_length: "ci_startswith p t \<Longrightarrow> length p \<le> length t"
  by (simp add: ci_startswith_def)

lemma ci_startswith_append:
  "ci_startswith (p @ q) t \<longleftrightarrow> ci_startswith p t \<and> ci_startswith q (drop (length p) t)"
proof
  assume h: "ci_startswith (p @ q) t"
  then have len: "length p + length q \<le> length t"
    and all: "list_all2 literal_matches (p @ q) (take (length p + length q) t)"
    by (simp_all add: ci_startswith_def)
  have split: "take (length p + length q) t =
      take (length p) t @ take (length q) (drop (length p) t)"
    by (simp add: take_add)
  have eq: "length p = length (take (length p) t)"
    using len by simp
  from all have "list_all2 literal_matches p (take (length p) t) \<and>
      list_all2 literal_matches q (take (length q) (drop (length p) t))"
    unfolding split by (simp only: list_all2_append [OF eq])
  then show "ci_startswith p t \<and> ci_startswith q (drop (length p) t)"
    using len by (simp add: ci_startswith_def)
next
  assume h: "ci_startswith p t \<and> ci_startswith q (drop (length p) t)"
  then have len: "length p \<le> length t" "length q \<le> length t - length p"
    by (simp_all add: ci_startswith_def)
  have eq: "length p = length (take (length p) t)"
    using len by simp
  have split: "take (length p + length q) t =
      take (length p) t @ take (length q) (drop (length p) t)"
    by (simp add: take_add)
  from h have "list_all2 literal_matches (p @ q)
      (take (length p) t @ take (length q) (drop (length p) t))"
    by (simp only: list_all2_append [OF eq]) (simp add: ci_startswith_def)
  then show "ci_startswith (p @ q) t"
    using len by (simp add: ci_startswith_def split)
qed

lemma ci_startswith_Nil [simp]: "p \<noteq> [] \<Longrightarrow> \<not> ci_startswith p []"
  by (simp add: ci_startswith_def)

lemma agree_tag_at_0:
  "agree_tag_at t 0 b \<longleftrightarrow>
     ci_startswith (py ''<AGREE>'') t \<and>
     (if b then ci_startswith (py ''true'') (drop 7 t) \<and>
               ci_startswith (py ''</AGREE>'') (drop 4 (drop 7 t))
      else ci_startswith (py ''false'') (drop 7 t) \<and>
           ci_startswith (py ''</AGREE>'') (drop 5 (drop 7 t)))"
proof -
  have l: "length (py ''<AGREE>'') = 7" "length (py ''true'') = 4" "length (py ''false'') = 5"
    by simp_all
  show ?thesis
    by (cases b) (simp_all only: agree_tag_at_def occurs_at_def ci_startswith_append l drop_0
        if_True if_False)
qed

lemma ci_true_all2:
  assumes "ci_startswith (py ''true'') r"
  shows "list_all2 literal_matches [116, 114, 117, 101] (take 4 r)"
proof -
  have l: "length (py ''true'') = 4" by simp
  have p: "py ''true'' = [116, 114, 117, 101]" by (simp add: py_def)
  from assms have "list_all2 literal_matches (py ''true'') (take (length (py ''true'')) r)"
    unfolding ci_startswith_def by blast
  then have "list_all2 literal_matches (py ''true'') (take 4 r)"
    by (simp only: l)
  then show ?thesis by (simp only: p)
qed

lemma ci_false_all2:
  assumes "ci_startswith (py ''false'') r"
  shows "list_all2 literal_matches [102, 97, 108, 115, 101] (take 5 r)"
proof -
  have l: "length (py ''false'') = 5" by simp
  have p: "py ''false'' = [102, 97, 108, 115, 101]" by (simp add: py_def)
  from assms have "list_all2 literal_matches (py ''false'') (take (length (py ''false'')) r)"
    unfolding ci_startswith_def by blast
  then have "list_all2 literal_matches (py ''false'') (take 5 r)"
    by (simp only: l)
  then show ?thesis by (simp only: p)
qed

lemma ci_true_group:
  assumes "ci_startswith (py ''true'') r"
  shows "group1_lower (take 4 r) = py ''true''"
proof -
  have lo: "ascii_lower 116 = 116" "ascii_lower 114 = 114" "ascii_lower 117 = 117"
    "ascii_lower 101 = 101"
    by (simp_all add: ascii_lower_def)
  have "list_all2 literal_matches [116, 114, 117, 101] (take 4 r)"
    using assms by (rule ci_true_all2)
  then obtain a b c d where g: "take 4 r = [a, b, c, d]"
    and m: "literal_matches 116 a" "literal_matches 114 b" "literal_matches 117 c"
      "literal_matches 101 d"
    by (auto simp: list_all2_Cons1)
  from m have "ascii_lower a = 116" "ascii_lower b = 114" "ascii_lower c = 117"
    "ascii_lower d = 101"
    by (simp_all add: literal_matches_def Let_def lo)
  then show ?thesis by (simp add: g group1_lower_def py_def)
qed

lemma ci_false_group:
  assumes "ci_startswith (py ''false'') r"
  shows "group1_lower (take 5 r) \<noteq> py ''true''"
proof
  assume e: "group1_lower (take 5 r) = py ''true''"
  have "5 \<le> length r" using ci_startswith_length [OF assms] by simp
  then have "length (group1_lower (take 5 r)) = 5" by (simp add: group1_lower_def)
  with e show False by simp
qed

lemma true_not_false:
  "ci_startswith (py ''true'') r \<Longrightarrow> \<not> ci_startswith (py ''false'') r"
  by (cases r) (auto simp: ci_startswith_def py_def literal_matches_def ascii_lower_def
      split: if_splits)

text \<open>
  Group 1 of a match of \<^verbatim>\<open>AGREE_TAG\<close> holds ASCII letters and U+017F only, so
  \<open>group1_lower\<close> is \<^verbatim>\<open>str.lower\<close> on every group it is applied to.
\<close>

lemma literal_matches_letter:
  assumes "literal_matches p c" and "p \<in> {116, 114, 117, 101, 102, 97, 108, 115}"
  shows "(65 \<le> c \<and> c \<le> 90) \<or> (97 \<le> c \<and> c \<le> 122) \<or> c = 383"
  using assms by (auto simp: literal_matches_def ascii_lower_def split: if_splits)

lemma AGREE_TAG_match_group:
  assumes "AGREE_TAG_match t = Some g" and "c \<in> set g"
  shows "(65 \<le> c \<and> c \<le> 90) \<or> (97 \<le> c \<and> c \<le> 122) \<or> c = 383"
proof -
  let ?r = "drop 7 t"
  from assms(1) consider
    (true) "ci_startswith (py ''true'') ?r" "g = take 4 ?r"
    | (false) "ci_startswith (py ''false'') ?r" "g = take 5 ?r"
    by (auto simp: AGREE_TAG_match_def Let_def split: if_splits)
  then obtain p where "list_all2 literal_matches p g"
    and "set p \<subseteq> {116, 114, 117, 101, 102, 97, 108, 115}"
  proof cases
    case true
    then have "list_all2 literal_matches [116, 114, 117, 101] g"
      by (simp add: ci_true_all2)
    then show ?thesis by (intro that [of "[116, 114, 117, 101]"]) simp_all
  next
    case false
    then have "list_all2 literal_matches [102, 97, 108, 115, 101] g"
      by (simp add: ci_false_all2)
    then show ?thesis by (intro that [of "[102, 97, 108, 115, 101]"]) simp_all
  qed
  then obtain q where "q \<in> {116, 114, 117, 101, 102, 97, 108, 115}" "literal_matches q c"
    using assms(2) by (metis in_set_conv_nth list_all2_conv_all_nth nth_mem subsetD)
  then show ?thesis using literal_matches_letter by blast
qed

lemma AGREE_TAG_match_Some:
  "agree_tag_at t 0 b \<Longrightarrow> \<exists>g. AGREE_TAG_match t = Some g \<and> (group1_lower g = (py ''true'')) = b"
proof (cases b)
  case True
  assume "agree_tag_at t 0 b"
  with True show ?thesis
    by (simp add: agree_tag_at_0 AGREE_TAG_match_def Let_def ci_true_group)
next
  case False
  assume "agree_tag_at t 0 b"
  with False show ?thesis
    using true_not_false [of "drop 7 t"]
    by (auto simp: agree_tag_at_0 AGREE_TAG_match_def Let_def ci_false_group)
qed

lemma AGREE_TAG_match_None:
  assumes "\<forall>b. \<not> agree_tag_at t 0 b"
  shows "AGREE_TAG_match t = None"
proof -
  have "\<not> agree_tag_at t 0 True" and "\<not> agree_tag_at t 0 False"
    using assms by blast+
  then show ?thesis
    by (auto simp add: agree_tag_at_0 AGREE_TAG_match_def Let_def)
qed

lemma agree_tag_at_Suc: "agree_tag_at (c # cs) (Suc i) b = agree_tag_at cs i b"
  by (simp add: agree_tag_at_def occurs_at_def)

lemma agree_tag_at_Nil: "\<not> agree_tag_at [] i b"
  by (simp add: agree_tag_at_def occurs_at_def)

lemma AGREE_TAG_search_first:
  "agree_tag_at t i b \<Longrightarrow> (\<forall>j<i. \<forall>b'. \<not> agree_tag_at t j b')
     \<Longrightarrow> \<exists>g. AGREE_TAG_search t = Some g \<and> (group1_lower g = (py ''true'')) = b"
proof (induction i arbitrary: t)
  case 0
  then obtain g where g: "AGREE_TAG_match t = Some g" "(group1_lower g = (py ''true'')) = b"
    using AGREE_TAG_match_Some by blast
  then show ?case by (cases t) auto
next
  case (Suc i)
  from Suc.prems(1) obtain c cs where t: "t = c # cs"
    by (cases t) (auto simp: agree_tag_at_Nil)
  have "\<forall>b'. \<not> agree_tag_at t 0 b'"
    using Suc.prems(2) by blast
  then have none: "AGREE_TAG_match t = None"
    by (rule AGREE_TAG_match_None)
  have here: "agree_tag_at cs i b"
    using Suc.prems(1) by (simp add: t agree_tag_at_Suc)
  have before: "\<forall>j<i. \<forall>b'. \<not> agree_tag_at cs j b'"
  proof (intro allI impI)
    fix j b'
    assume "j < i"
    then have "Suc j < Suc i" by simp
    then have "\<not> agree_tag_at t (Suc j) b'" using Suc.prems(2) by blast
    then show "\<not> agree_tag_at cs j b'" by (simp add: t agree_tag_at_Suc)
  qed
  show ?case using Suc.IH [OF here before] none by (simp add: t)
qed

lemma AGREE_TAG_search_none:
  "(\<forall>i b. \<not> agree_tag_at t i b) \<Longrightarrow> AGREE_TAG_search t = None"
proof (induction t)
  case Nil
  then show ?case by (simp add: AGREE_TAG_match_None)
next
  case (Cons c cs)
  have "AGREE_TAG_match (c # cs) = None" using Cons.prems by (simp add: AGREE_TAG_match_None)
  moreover have "\<forall>i b. \<not> agree_tag_at cs i b"
  proof (intro allI)
    fix i b
    have "\<not> agree_tag_at (c # cs) (Suc i) b" using Cons.prems by blast
    then show "\<not> agree_tag_at cs i b" by (simp add: agree_tag_at_Suc)
  qed
  ultimately show ?case using Cons.IH by simp
qed

text \<open>
  Claim C3. For every text (every sequence of code points), \<open>extract_agreement\<close> looks,
  case ignored as \<^verbatim>\<open>re.IGNORECASE\<close> ignores it, for the first agreement tag wrapping the
  token \<^verbatim>\<open>true\<close> or \<^verbatim>\<open>false\<close>: when no such tag stands anywhere in the text the
  result is absent, and when the leftmost tag stands at offset \<open>i\<close> and wraps the token
  for \<open>b\<close> the result is \<open>b\<close> (true for \<^verbatim>\<open>true\<close>, false for \<^verbatim>\<open>false\<close>).
\<close>

theorem extract_agreement_first_tag:
  "((\<forall>i b. \<not> agree_tag_at text i b) \<longrightarrow> extract_agreement text = None) \<and>
   (\<forall>i b. agree_tag_at text i b \<and> (\<forall>j<i. \<forall>b'. \<not> agree_tag_at text j b')
      \<longrightarrow> extract_agreement text = Some b)"
proof (intro conjI allI impI)
  assume "\<forall>i b. \<not> agree_tag_at text i b"
  then show "extract_agreement text = None"
    by (simp add: extract_agreement_def AGREE_TAG_search_none)
next
  fix i b
  assume "agree_tag_at text i b \<and> (\<forall>j<i. \<forall>b'. \<not> agree_tag_at text j b')"
  then obtain g where "AGREE_TAG_search text = Some g" "(group1_lower g = (py ''true'')) = b"
    using AGREE_TAG_search_first by blast
  then show "extract_agreement text = Some b"
    by (simp add: extract_agreement_def)
qed


lemma lazy_until_close_shortest:
  "take (length s) r = s \<Longrightarrow> length s \<le> length r
     \<Longrightarrow> ci_startswith (py ''</FINAL>'') (drop (length s) r)
     \<Longrightarrow> (\<forall>k<length s. \<not> ci_startswith (py ''</FINAL>'') (drop k r))
     \<Longrightarrow> lazy_until_close r = Some s"
proof (induction s arbitrary: r)
  case Nil
  then show ?case by (cases r) simp_all
next
  case (Cons a s)
  from Cons.prems(1,2) obtain cs where r: "r = a # cs"
    by (cases r) auto
  have not0: "\<not> ci_startswith (py ''</FINAL>'') r"
    using Cons.prems(4) [rule_format, of 0] by simp
  have later: "\<forall>k<length s. \<not> ci_startswith (py ''</FINAL>'') (drop k cs)"
  proof (intro allI impI)
    fix k
    assume "k < length s"
    then have "Suc k < length (a # s)" by simp
    then have "\<not> ci_startswith (py ''</FINAL>'') (drop (Suc k) r)"
      using Cons.prems(4) by blast
    then show "\<not> ci_startswith (py ''</FINAL>'') (drop k cs)" by (simp add: r)
  qed
  have "lazy_until_close cs = Some s"
    using Cons.prems(1,2,3) later by (intro Cons.IH) (simp_all add: r)
  then show ?case using not0 by (simp add: r)
qed

lemma lazy_until_close_never:
  "(\<forall>k. \<not> ci_startswith (py ''</FINAL>'') (drop k r)) \<Longrightarrow> lazy_until_close r = None"
proof (induction r)
  case Nil
  then show ?case by simp
next
  case (Cons c cs)
  have "\<not> ci_startswith (py ''</FINAL>'') (c # cs)"
    using Cons.prems [rule_format, of 0] by simp
  moreover have "\<forall>k. \<not> ci_startswith (py ''</FINAL>'') (drop k cs)"
  proof
    fix k
    show "\<not> ci_startswith (py ''</FINAL>'') (drop k cs)"
      using Cons.prems [rule_format, of "Suc k"] by simp
  qed
  ultimately show ?case using Cons.IH by simp
qed

lemma final_tag_at_0:
  "final_tag_at t 0 s \<longleftrightarrow>
     ci_startswith (py ''<FINAL>'') t \<and> take (length s) (drop 7 t) = s \<and>
     ci_startswith (py ''</FINAL>'') (drop (length s) (drop 7 t))"
  by (simp add: final_tag_at_def occurs_at_def add.commute)

lemma take_eq_length:
  assumes "take (length s) r = s"
  shows "length s \<le> length r"
proof -
  have "length (take (length s) r) = length s" using assms by simp
  then show ?thesis by simp
qed

lemma FINAL_TAG_match_Some:
  assumes tag: "final_tag_at t 0 inner"
    and shortest: "\<forall>s. length s < length inner \<longrightarrow> \<not> final_tag_at t 0 s"
  shows "FINAL_TAG_match t = Some inner"
proof -
  let ?r = "drop 7 t"
  from tag have opn: "ci_startswith (py ''<FINAL>'') t" and pre: "take (length inner) ?r = inner"
    and cls: "ci_startswith (py ''</FINAL>'') (drop (length inner) ?r)"
    by (simp_all add: final_tag_at_0)
  have len: "length inner \<le> length ?r" using pre by (rule take_eq_length)
  have "\<forall>k<length inner. \<not> ci_startswith (py ''</FINAL>'') (drop k ?r)"
  proof (intro allI impI)
    fix k
    assume k: "k < length inner"
    then have lk: "length (take k ?r) = k" using len by simp
    then have "\<not> final_tag_at t 0 (take k ?r)" using shortest k by simp
    then show "\<not> ci_startswith (py ''</FINAL>'') (drop k ?r)"
      using opn lk by (simp add: final_tag_at_0)
  qed
  then have "lazy_until_close ?r = Some inner"
    using pre len cls by (intro lazy_until_close_shortest)
  then show ?thesis using opn by (simp add: FINAL_TAG_match_def)
qed

lemma FINAL_TAG_match_None:
  assumes "\<forall>s. \<not> final_tag_at t 0 s"
  shows "FINAL_TAG_match t = None"
proof (cases "ci_startswith (py ''<FINAL>'') t")
  case False
  then show ?thesis by (simp add: FINAL_TAG_match_def)
next
  case True
  let ?r = "drop 7 t"
  have "\<forall>k. \<not> ci_startswith (py ''</FINAL>'') (drop k ?r)"
  proof
    fix k
    show "\<not> ci_startswith (py ''</FINAL>'') (drop k ?r)"
    proof (cases "k \<le> length ?r")
      case le: True
      then have lk: "length (take k ?r) = k" by simp
      have "\<not> final_tag_at t 0 (take k ?r)" using assms by blast
      then show ?thesis using True lk by (simp add: final_tag_at_0)
    next
      case False
      then have "drop k ?r = []" by simp
      then show ?thesis by simp
    qed
  qed
  then have "lazy_until_close ?r = None" by (rule lazy_until_close_never)
  then show ?thesis by (simp add: FINAL_TAG_match_def)
qed

lemma final_tag_at_Suc: "final_tag_at (c # cs) (Suc i) s = final_tag_at cs i s"
  by (simp only: final_tag_at_def occurs_at_def add_Suc drop_Suc_Cons)

lemma final_tag_at_Nil: "\<not> final_tag_at [] i s"
  by (simp add: final_tag_at_def occurs_at_def)

lemma FINAL_TAG_search_first:
  "final_tag_at t i inner \<Longrightarrow> (\<forall>j<i. \<forall>s. \<not> final_tag_at t j s)
     \<Longrightarrow> (\<forall>s. length s < length inner \<longrightarrow> \<not> final_tag_at t i s)
     \<Longrightarrow> FINAL_TAG_search t = Some inner"
proof (induction i arbitrary: t)
  case 0
  then have "FINAL_TAG_match t = Some inner"
    by (intro FINAL_TAG_match_Some)
  then show ?case by (cases t) auto
next
  case (Suc i)
  from Suc.prems(1) obtain c cs where t: "t = c # cs"
    by (cases t) (auto simp: final_tag_at_Nil)
  have "\<forall>s. \<not> final_tag_at t 0 s"
    using Suc.prems(2) by blast
  then have none: "FINAL_TAG_match t = None"
    by (rule FINAL_TAG_match_None)
  have here: "final_tag_at cs i inner"
    using Suc.prems(1) by (simp add: t final_tag_at_Suc)
  have before: "\<forall>j<i. \<forall>s. \<not> final_tag_at cs j s"
  proof (intro allI impI)
    fix j s
    assume "j < i"
    then have "Suc j < Suc i" by simp
    then have "\<not> final_tag_at t (Suc j) s" using Suc.prems(2) by blast
    then show "\<not> final_tag_at cs j s" by (simp add: t final_tag_at_Suc)
  qed
  have shortest: "\<forall>s. length s < length inner \<longrightarrow> \<not> final_tag_at cs i s"
    using Suc.prems(3) by (simp add: t final_tag_at_Suc)
  show ?case using Suc.IH [OF here before shortest] none by (simp add: t)
qed

lemma FINAL_TAG_search_none:
  "(\<forall>i s. \<not> final_tag_at t i s) \<Longrightarrow> FINAL_TAG_search t = None"
proof (induction t)
  case Nil
  then show ?case by (simp add: FINAL_TAG_match_None)
next
  case (Cons c cs)
  have "FINAL_TAG_match (c # cs) = None" using Cons.prems by (simp add: FINAL_TAG_match_None)
  moreover have "\<forall>i s. \<not> final_tag_at cs i s"
  proof (intro allI)
    fix i s
    have "\<not> final_tag_at (c # cs) (Suc i) s" using Cons.prems by blast
    then show "\<not> final_tag_at cs i s" by (simp add: final_tag_at_Suc)
  qed
  ultimately show ?case using Cons.IH by simp
qed

text \<open>
  Claim C4. For every text (every sequence of code points), \<open>extract_final_answer\<close>
  matches, case ignored as \<^verbatim>\<open>re.IGNORECASE\<close> ignores it, the first finalization tag,
  whose content may hold any characters (newlines too): when no
  finalization tag stands anywhere in the text the result is absent; when the leftmost tag
  stands at offset \<open>i\<close> and \<open>inner\<close> is the shortest content a tag at that offset can have
  (the match is not greedy), the result is \<open>inner\<close> with the white space of both ends removed.
\<close>

theorem extract_final_answer_first_tag:
  "((\<forall>i inner. \<not> final_tag_at text i inner) \<longrightarrow> extract_final_answer text = None) \<and>
   (\<forall>i inner. final_tag_at text i inner \<and> (\<forall>j<i. \<forall>s. \<not> final_tag_at text j s) \<and>
        (\<forall>s. length s < length inner \<longrightarrow> \<not> final_tag_at text i s)
      \<longrightarrow> extract_final_answer text = Some (py_strip inner))"
proof (intro conjI allI impI)
  assume "\<forall>i inner. \<not> final_tag_at text i inner"
  then show "extract_final_answer text = None"
    by (simp add: extract_final_answer_def FINAL_TAG_search_none)
next
  fix i inner
  assume "final_tag_at text i inner \<and> (\<forall>j<i. \<forall>s. \<not> final_tag_at text j s) \<and>
        (\<forall>s. length s < length inner \<longrightarrow> \<not> final_tag_at text i s)"
  then have "FINAL_TAG_search text = Some inner"
    using FINAL_TAG_search_first by blast
  then show "extract_final_answer text = Some (py_strip inner)"
    by (simp add: extract_final_answer_def)
qed


lemmas eval_text = py_def ci_startswith_def literal_matches_def ascii_lower_def
  group1_lower_def occurs_at_def agree_tag_at_def final_tag_at_def py_strip_def py_isspace_def

lemma agree_tag_at_bound: "agree_tag_at t i b \<Longrightarrow> i + 19 \<le> length t"
proof -
  assume "agree_tag_at t i b"
  then have "length ((py ''<AGREE>'') @ (if b then (py ''true'') else (py ''false'')) @ (py ''</AGREE>''))
      \<le> length (drop i t)"
    unfolding agree_tag_at_def occurs_at_def by (rule ci_startswith_length)
  then show ?thesis by (cases b) simp_all
qed

lemma final_tag_at_close:
  "final_tag_at t i s \<Longrightarrow> occurs_at t (i + 7 + length s) (py ''</FINAL>'')"
  by (simp add: final_tag_at_def)

lemma final_tag_at_open:
  "final_tag_at t i s \<Longrightarrow> occurs_at t i (py ''<FINAL>'')"
  by (simp add: final_tag_at_def)

lemma occurs_at_bound:
  assumes "occurs_at t i p" and "p \<noteq> []"
  shows "i + length p \<le> length t"
proof -
  have "length p \<le> length (drop i t)"
    using assms(1) unfolding occurs_at_def by (rule ci_startswith_length)
  then have a: "length p \<le> length t - i" by simp
  have b: "0 < length p" using assms(2) by simp
  from a b show ?thesis by arith
qed

theorem extract_agreement_first_tag_witness:
  "agree_tag_at (py ''Hm. <agree>TRUE</agree> <AGREE>false</AGREE>'') 4 True \<and>
   extract_agreement (py ''Hm. <agree>TRUE</agree> <AGREE>false</AGREE>'') = Some True \<and>
   agree_tag_at (py ''<AGREE>fal'' @ [383] @ py ''e</AGREE>'') 0 False \<and>
   extract_agreement (py ''<AGREE>fal'' @ [383] @ py ''e</AGREE>'') = Some False \<and>
   (\<forall>i b. \<not> agree_tag_at (py ''No tag here'') i b) \<and>
   extract_agreement (py ''No tag here'') = None"
proof -
  let ?t = "py ''Hm. <agree>TRUE</agree> <AGREE>false</AGREE>''"
  let ?u = "py ''<AGREE>fal'' @ [383] @ py ''e</AGREE>''"
  have here: "agree_tag_at ?t 4 True"
    by (simp add: eval_text)
  have before: "\<forall>j<4. \<forall>b'. \<not> agree_tag_at ?t j b'"
    by (simp add: eval_text eval_nat_numeral All_less_Suc)
  have long_s: "agree_tag_at ?u 0 False"
    by (simp add: eval_text)
  have first: "\<forall>j<0. \<forall>b'. \<not> agree_tag_at ?u j b'"
    by simp
  have none: "\<forall>i b. \<not> agree_tag_at (py ''No tag here'') i b"
    using agree_tag_at_bound [of "py ''No tag here''"] by fastforce
  have a: "extract_agreement ?t = Some True"
    by (rule extract_agreement_first_tag [of ?t, THEN conjunct2, rule_format, of 4 True])
      (intro conjI here before)
  have c: "extract_agreement ?u = Some False"
    by (rule extract_agreement_first_tag [of ?u, THEN conjunct2, rule_format, of 0 False])
      (intro conjI long_s first)
  have b: "extract_agreement (py ''No tag here'') = None"
    by (rule extract_agreement_first_tag [of "py ''No tag here''", THEN conjunct1, rule_format])
      (rule none [rule_format])
  show ?thesis
    by (intro conjI here a long_s c none b)
qed

theorem extract_final_answer_first_tag_witness:
  "final_tag_at (py ''Answer: <f'' @ [305] @ py ''nal>'' @ [12288] @ py ''4'' @ [10] @
                 py ''2 </F'' @ [304] @ py ''NAL> or <FINAL>7</FINAL>'') 8
      ([12288] @ py ''4'' @ [10] @ py ''2 '') \<and>
   extract_final_answer (py ''Answer: <f'' @ [305] @ py ''nal>'' @ [12288] @ py ''4'' @ [10] @
                 py ''2 </F'' @ [304] @ py ''NAL> or <FINAL>7</FINAL>'')
      = Some (py ''4'' @ [10] @ py ''2'') \<and>
   (\<forall>i inner. \<not> final_tag_at (py ''<FINAL>5'') i inner) \<and>
   extract_final_answer (py ''<FINAL>5'') = None"
proof -
  let ?t = "py ''Answer: <f'' @ [305] @ py ''nal>'' @ [12288] @ py ''4'' @ [10] @
            py ''2 </F'' @ [304] @ py ''NAL> or <FINAL>7</FINAL>''"
  let ?inner = "[12288] @ py ''4'' @ [10] @ py ''2 ''"
  have here: "final_tag_at ?t 8 ?inner"
    by (simp add: eval_text)
  have "\<forall>j<8. \<not> occurs_at ?t j (py ''<FINAL>'')"
    by (simp add: eval_text eval_nat_numeral All_less_Suc)
  then have before: "\<forall>j<8. \<forall>s. \<not> final_tag_at ?t j s"
    using final_tag_at_open by blast
  have nc: "\<forall>k<5. \<not> occurs_at ?t (8 + 7 + k) (py ''</FINAL>'')"
    by (simp add: eval_text eval_nat_numeral All_less_Suc)
  have shortest: "\<forall>s. length s < length ?inner \<longrightarrow> \<not> final_tag_at ?t 8 s"
  proof (intro allI impI notI)
    fix s
    assume "length s < length ?inner" and tag: "final_tag_at ?t 8 s"
    then have "length s < 5" by simp
    with nc have "\<not> occurs_at ?t (8 + 7 + length s) (py ''</FINAL>'')" by blast
    with final_tag_at_close [OF tag] show False by blast
  qed
  have none: "\<forall>i inner. \<not> final_tag_at (py ''<FINAL>5'') i inner"
  proof (intro allI notI)
    fix i inner
    assume h: "final_tag_at (py ''<FINAL>5'') i inner"
    have "i + 7 + length inner + length (py ''</FINAL>'') \<le> length (py ''<FINAL>5'')"
      using final_tag_at_close [OF h] by (intro occurs_at_bound) simp_all
    then show False by simp
  qed
  have strip: "py_strip ?inner = py ''4'' @ [10] @ py ''2''"
    by (simp add: eval_text)
  have a: "extract_final_answer ?t = Some (py_strip ?inner)"
    by (rule extract_final_answer_first_tag [of ?t, THEN conjunct2, rule_format, of 8 ?inner])
      (intro conjI here before shortest)
  have a': "extract_final_answer ?t = Some (py ''4'' @ [10] @ py ''2'')"
    using a by (simp only: strip)
  have b: "extract_final_answer (py ''<FINAL>5'') = None"
    by (rule extract_final_answer_first_tag [of "py ''<FINAL>5''", THEN conjunct1, rule_format])
      (rule none [rule_format])
  show ?thesis
    by (intro conjI here a' none b)
qed

text \<open>
  The cases of \<^verbatim>\<open>test_regex_patterns\<close> in \<^verbatim>\<open>tests/test_protocol.py\<close>, evaluated on
  the model, and two texts with letters outside ASCII that \<^verbatim>\<open>re.IGNORECASE\<close> accepts.
\<close>

lemma test_regex_patterns:
  "extract_agreement (py ''<AGREE>true</AGREE>'') = Some True"
  "extract_agreement (py ''<AGREE>false</AGREE>'') = Some False"
  "extract_agreement (py ''<agree>TRUE</agree>'') = Some True"
  "extract_agreement (py ''<AGREE>FALSE</AGREE>'') = Some False"
  "extract_agreement (py ''Some text <AGREE>true</AGREE> more text'') = Some True"
  "extract_agreement (py ''No tag here'') = None"
  "extract_final_answer (py ''<FINAL>42</FINAL>'') = Some (py ''42'')"
  "extract_final_answer (py ''<final>hello world</final>'') = Some (py ''hello world'')"
  "extract_final_answer (py ''Text <FINAL>answer here</FINAL> more'') = Some (py ''answer here'')"
  "extract_final_answer (py ''<FINAL>multi'' @ [10] @ py ''line'' @ [10] @ py ''answer</FINAL>'')
     = Some (py ''multi'' @ [10] @ py ''line'' @ [10] @ py ''answer'')"
  "extract_final_answer (py ''No final tag'') = None"
  by code_simp+

lemma letters_outside_ascii:
  "extract_agreement (py ''<AGREE>fal'' @ [383] @ py ''e</AGREE>'') = Some False"
  "extract_final_answer (py ''<F'' @ [305] @ py ''NAL>5</F'' @ [304] @ py ''NAL>'') = Some (py ''5'')"
  "extract_final_answer (py ''<FINAL>'' @ [8195] @ py ''5'' @ [12288] @ py ''</FINAL>'')
     = Some (py ''5'')"
  by code_simp+

section \<open>Properties of the round loop\<close>

lemma history_0 [simp]: "history p 0 = []"
  by (simp add: history_def)

lemma history_step: "0 \<le> k \<Longrightarrow> history p (k + 1) = history p k @ round_turns p k"
  by (simp add: history_def upto_rec2)

lemma round_body_continues:
  "round_continues p k \<Longrightarrow>
     round_body p k res = (Continue, res\<lparr>rounds := k + 1, turns := turns res @ round_turns p k\<rparr>)"
  by (auto simp: round_continues_def round_body_def round_turns_def Let_def
      split: sum.splits)

lemma debate_loop_unroll:
  assumes "0 \<le> k" and "k \<le> m" and "\<forall>j. 0 \<le> j \<and> j < k \<longrightarrow> round_continues p j"
    and "rounds res = 0"
  shows "debate_loop p m 0 res =
           debate_loop p m k (res\<lparr>rounds := k, turns := turns res @ history p k\<rparr>)"
  using assms(1,2,3)
proof (induction k rule: int_ge_induct)
  case base
  have "res\<lparr>rounds := 0, turns := turns res @ history p 0\<rparr> = res"
    using assms(4) by simp
  then show ?case by simp
next
  case (step i)
  then have "debate_loop p m 0 res =
           debate_loop p m i (res\<lparr>rounds := i, turns := turns res @ history p i\<rparr>)"
    by simp
  also have "\<dots> = debate_loop p m (i + 1)
                (res\<lparr>rounds := i + 1, turns := turns res @ history p (i + 1)\<rparr>)"
    using step.prems step.hyps
    by (subst debate_loop.simps) (simp add: round_body_continues history_step)
  finally show ?case .
qed


lemma debate_loop_reaches:
  assumes "0 \<le> k" and "k \<le> m" and "\<forall>j. 0 \<le> j \<and> j < k \<longrightarrow> round_continues p j"
  shows "debate_loop p m 0 (in_progress_at expr pace p 0) =
           debate_loop p m k (in_progress_at expr pace p k)"
proof -
  have "debate_loop p m 0 (in_progress_at expr pace p 0) =
          debate_loop p m k ((in_progress_at expr pace p 0)
             \<lparr>rounds := k, turns := turns (in_progress_at expr pace p 0) @ history p k\<rparr>)"
    using assms by (intro debate_loop_unroll) (simp_all add: in_progress_at_def)
  then show ?thesis by (simp add: in_progress_at_def)
qed

lemma debate_unfold:
  "debate settings p expr a pace =
     (case debate_loop p (effective_max_rounds settings a) 0 (in_progress_at expr pace p 0) of
        (None, r) \<Rightarrow>
          if status r = IN_PROGRESS
          then r\<lparr>status := TIMEOUT,
                 error_message := Some (timeout_message (effective_max_rounds settings a))\<rparr>
          else r
      | (Some e, r) \<Rightarrow> r\<lparr>status := ERROR, error_message := Some e\<rparr>)"
  by (simp only: debate_def in_progress_at_def timeout_message_def Let_def history_0)

lemma debate_loop_stops:
  assumes "0 \<le> k" and "k < m" and "\<forall>j. 0 \<le> j \<and> j < k \<longrightarrow> round_continues p j"
    and "round_body p k (in_progress_at expr pace p k) = (fl, r)" and "fl \<noteq> Continue"
  shows "debate_loop p m 0 (in_progress_at expr pace p 0) =
           (case fl of Raise e \<Rightarrow> Some e | _ \<Rightarrow> None, r)"
proof -
  have "debate_loop p m 0 (in_progress_at expr pace p 0) =
          debate_loop p m k (in_progress_at expr pace p k)"
    using assms(1,2,3) by (intro debate_loop_reaches) simp_all
  also have "\<dots> = (case fl of Raise e \<Rightarrow> Some e | _ \<Rightarrow> None, r)"
    using assms(2,4,5) by (subst debate_loop.simps) (cases fl; simp)
  finally show ?thesis .
qed

lemma debate_loop_exhausted:
  assumes "\<forall>j. 0 \<le> j \<and> j < m \<longrightarrow> round_continues p j"
  shows "debate_loop p m 0 (in_progress_at expr pace p 0) =
           (None, in_progress_at expr pace p (max 0 m))"
proof (cases "0 \<le> m")
  case True
  have "debate_loop p m 0 (in_progress_at expr pace p 0) =
          debate_loop p m m (in_progress_at expr pace p m)"
    using True assms by (intro debate_loop_reaches) simp_all
  also have "\<dots> = (None, in_progress_at expr pace p m)"
    by (subst debate_loop.simps) simp
  finally show ?thesis using True by (simp add: max_def)
next
  case False
  then show ?thesis by (subst debate_loop.simps) (simp add: max_def)
qed

lemma result_timeout:
  assumes "\<forall>j. 0 \<le> j \<and> j < effective_max_rounds settings a \<longrightarrow> round_continues p j"
  shows "debate settings p expr a pace =
           \<lparr>status = TIMEOUT, expression = expr, final_answer = None,
            rounds = max 0 (effective_max_rounds settings a),
            turns = history p (max 0 (effective_max_rounds settings a)),
            error_message = Some (timeout_message (effective_max_rounds settings a)),
            pace_mode = pace\<rparr>"
  by (simp only: debate_unfold debate_loop_exhausted [OF assms]) (simp add: in_progress_at_def)

lemma debate_stops:
  assumes "0 \<le> k" and "k < effective_max_rounds settings a"
    and "\<forall>j. 0 \<le> j \<and> j < k \<longrightarrow> round_continues p j"
    and "round_body p k (in_progress_at expr pace p k) = (fl, r)" and "fl \<noteq> Continue"
    and "status r \<noteq> IN_PROGRESS \<or> fl \<noteq> Break"
  shows "debate settings p expr a pace =
           (case fl of Raise e \<Rightarrow> r\<lparr>status := ERROR, error_message := Some e\<rparr> | _ \<Rightarrow> r)"
  using assms(5,6) by (cases fl) (simp_all add: debate_unfold debate_loop_stops [OF assms(1-5)])


lemma result_terrence_raises:
  assumes "0 \<le> k" and "k < effective_max_rounds settings a"
    and "\<forall>j. 0 \<le> j \<and> j < k \<longrightarrow> round_continues p j"
    and "terrence_reply p k = Inl e"
  shows "debate settings p expr a pace =
           \<lparr>status = ERROR, expression = expr, final_answer = None, rounds = k + 1,
            turns = history p k,
            error_message = Some e, pace_mode = pace\<rparr>"
proof -
  have "round_body p k (in_progress_at expr pace p k) =
          (Raise e, \<lparr>status = IN_PROGRESS, expression = expr, final_answer = None, rounds = k + 1,
            turns = history p k,
            error_message = None, pace_mode = pace\<rparr>)"
    using assms by (simp add: round_body_def in_progress_at_def Let_def finalize_failure_def)
  from debate_stops [OF assms(1-3) this] show ?thesis by simp
qed

lemma result_early_final:
  assumes "0 \<le> k" and "k < effective_max_rounds settings a"
    and "\<forall>j. 0 \<le> j \<and> j < k \<longrightarrow> round_continues p j"
    and "terrence_reply p k = Inr t" and "truthy (extract_final_answer t)"
  shows "debate settings p expr a pace =
           \<lparr>status = COMPLETED, expression = expr, final_answer = extract_final_answer t, rounds = k + 1,
            turns = history p k @ [terrence_turn t],
            error_message = None, pace_mode = pace\<rparr>"
proof -
  have "round_body p k (in_progress_at expr pace p k) =
          (Break, \<lparr>status = COMPLETED, expression = expr, final_answer = extract_final_answer t, rounds = k + 1,
            turns = history p k @ [terrence_turn t],
            error_message = None, pace_mode = pace\<rparr>)"
    using assms by (simp add: round_body_def in_progress_at_def Let_def finalize_failure_def)
  from debate_stops [OF assms(1-3) this] show ?thesis by simp
qed

lemma result_neil_raises:
  assumes "0 \<le> k" and "k < effective_max_rounds settings a"
    and "\<forall>j. 0 \<le> j \<and> j < k \<longrightarrow> round_continues p j"
    and "terrence_reply p k = Inr t" and "\<not> truthy (extract_final_answer t)"
    and "neil_reply p k = Inl e"
  shows "debate settings p expr a pace =
           \<lparr>status = ERROR, expression = expr, final_answer = None, rounds = k + 1,
            turns = history p k @ [terrence_turn t],
            error_message = Some e, pace_mode = pace\<rparr>"
proof -
  have "round_body p k (in_progress_at expr pace p k) =
          (Raise e, \<lparr>status = IN_PROGRESS, expression = expr, final_answer = None, rounds = k + 1,
            turns = history p k @ [terrence_turn t],
            error_message = None, pace_mode = pace\<rparr>)"
    using assms by (simp add: round_body_def in_progress_at_def Let_def finalize_failure_def)
  from debate_stops [OF assms(1-3) this] show ?thesis by simp
qed

lemma result_final_raises:
  assumes "0 \<le> k" and "k < effective_max_rounds settings a"
    and "\<forall>j. 0 \<le> j \<and> j < k \<longrightarrow> round_continues p j"
    and "terrence_reply p k = Inr t" and "\<not> truthy (extract_final_answer t)"
    and "neil_reply p k = Inr n" and "extract_agreement n = Some True"
    and "final_reply p k = Inl e"
  shows "debate settings p expr a pace =
           \<lparr>status = ERROR, expression = expr, final_answer = None, rounds = k + 1,
            turns = history p k @ [terrence_turn t, neil_turn n],
            error_message = Some e, pace_mode = pace\<rparr>"
proof -
  have "round_body p k (in_progress_at expr pace p k) =
          (Raise e, \<lparr>status = IN_PROGRESS, expression = expr, final_answer = None, rounds = k + 1,
            turns = history p k @ [terrence_turn t, neil_turn n],
            error_message = None, pace_mode = pace\<rparr>)"
    using assms by (simp add: round_body_def in_progress_at_def Let_def finalize_failure_def)
  from debate_stops [OF assms(1-3) this] show ?thesis by simp
qed

lemma result_final_ok:
  assumes "0 \<le> k" and "k < effective_max_rounds settings a"
    and "\<forall>j. 0 \<le> j \<and> j < k \<longrightarrow> round_continues p j"
    and "terrence_reply p k = Inr t" and "\<not> truthy (extract_final_answer t)"
    and "neil_reply p k = Inr n" and "extract_agreement n = Some True"
    and "final_reply p k = Inr f" and "truthy (extract_final_answer f)"
  shows "debate settings p expr a pace =
           \<lparr>status = COMPLETED, expression = expr, final_answer = extract_final_answer f, rounds = k + 1,
            turns = history p k @ [terrence_turn t, neil_turn n, terrence_turn f],
            error_message = None, pace_mode = pace\<rparr>"
proof -
  have "round_body p k (in_progress_at expr pace p k) =
          (Break, \<lparr>status = COMPLETED, expression = expr, final_answer = extract_final_answer f, rounds = k + 1,
            turns = history p k @ [terrence_turn t, neil_turn n, terrence_turn f],
            error_message = None, pace_mode = pace\<rparr>)"
    using assms by (simp add: round_body_def in_progress_at_def Let_def finalize_failure_def)
  from debate_stops [OF assms(1-3) this] show ?thesis by simp
qed

lemma result_final_missing:
  assumes "0 \<le> k" and "k < effective_max_rounds settings a"
    and "\<forall>j. 0 \<le> j \<and> j < k \<longrightarrow> round_continues p j"
    and "terrence_reply p k = Inr t" and "\<not> truthy (extract_final_answer t)"
    and "neil_reply p k = Inr n" and "extract_agreement n = Some True"
    and "final_reply p k = Inr f" and "\<not> truthy (extract_final_answer f)"
  shows "debate settings p expr a pace =
           \<lparr>status = ERROR, expression = expr, final_answer = None, rounds = k + 1,
            turns = history p k @ [terrence_turn t, neil_turn n, terrence_turn f],
            error_message = Some finalize_failure, pace_mode = pace\<rparr>"
proof -
  have "round_body p k (in_progress_at expr pace p k) =
          (Break, \<lparr>status = ERROR, expression = expr, final_answer = None, rounds = k + 1,
            turns = history p k @ [terrence_turn t, neil_turn n, terrence_turn f],
            error_message = Some finalize_failure, pace_mode = pace\<rparr>)"
    using assms by (simp add: round_body_def in_progress_at_def Let_def finalize_failure_def)
  from debate_stops [OF assms(1-3) this] show ?thesis by simp
qed


lemma first_stopping_round:
  assumes "\<not> (\<forall>j. 0 \<le> j \<and> j < m \<longrightarrow> round_continues p j)"
  obtains k where "0 \<le> k" and "k < m" and "\<not> round_continues p k"
    and "\<forall>j. 0 \<le> j \<and> j < k \<longrightarrow> round_continues p j"
proof -
  let ?P = "\<lambda>n. int n < m \<and> \<not> round_continues p (int n)"
  from assms obtain j where j: "0 \<le> j" "j < m" "\<not> round_continues p j" by blast
  then have "?P (nat j)" by simp
  then have "\<exists>n. ?P n \<and> (\<forall>i<n. \<not> ?P i)"
    using exists_least_iff [of ?P] by blast
  then obtain n where n: "?P n" "\<forall>i<n. \<not> ?P i" by blast
  have "\<forall>j. 0 \<le> j \<and> j < int n \<longrightarrow> round_continues p j"
  proof (intro allI impI)
    fix j
    assume "0 \<le> j \<and> j < int n"
    then have a: "nat j < n" and b: "int (nat j) = j" and c: "j < m" using n(1) by auto
    from n(2) a have "\<not> ?P (nat j)" by blast
    then show "round_continues p j" using b c by simp
  qed
  then show ?thesis using n(1) by (intro that [of "int n"]) simp_all
qed

lemma debate_cases [case_names timeout terrence_raises early_final neil_raises
    final_raises final_ok final_missing]:
  obtains
    (timeout) "\<forall>j. 0 \<le> j \<and> j < m \<longrightarrow> round_continues p j"
  | (terrence_raises) k e where "0 \<le> k" and "k < m"
      and "\<forall>j. 0 \<le> j \<and> j < k \<longrightarrow> round_continues p j"
      and "terrence_reply p k = Inl e"
  | (early_final) k t where "0 \<le> k" and "k < m"
      and "\<forall>j. 0 \<le> j \<and> j < k \<longrightarrow> round_continues p j"
      and "terrence_reply p k = Inr t" and "truthy (extract_final_answer t)"
  | (neil_raises) k t e where "0 \<le> k" and "k < m"
      and "\<forall>j. 0 \<le> j \<and> j < k \<longrightarrow> round_continues p j"
      and "terrence_reply p k = Inr t" and "\<not> truthy (extract_final_answer t)"
      and "neil_reply p k = Inl e"
  | (final_raises) k t n e where "0 \<le> k" and "k < m"
      and "\<forall>j. 0 \<le> j \<and> j < k \<longrightarrow> round_continues p j"
      and "terrence_reply p k = Inr t" and "\<not> truthy (extract_final_answer t)"
      and "neil_reply p k = Inr n" and "extract_agreement n = Some True"
      and "final_reply p k = Inl e"
  | (final_ok) k t n f where "0 \<le> k" and "k < m"
      and "\<forall>j. 0 \<le> j \<and> j < k \<longrightarrow> round_continues p j"
      and "terrence_reply p k = Inr t" and "\<not> truthy (extract_final_answer t)"
      and "neil_reply p k = Inr n" and "extract_agreement n = Some True"
      and "final_reply p k = Inr f" and "truthy (extract_final_answer f)"
  | (final_missing) k t n f where "0 \<le> k" and "k < m"
      and "\<forall>j. 0 \<le> j \<and> j < k \<longrightarrow> round_continues p j"
      and "terrence_reply p k = Inr t" and "\<not> truthy (extract_final_answer t)"
      and "neil_reply p k = Inr n" and "extract_agreement n = Some True"
      and "final_reply p k = Inr f" and "\<not> truthy (extract_final_answer f)"
proof (cases "\<forall>j. 0 \<le> j \<and> j < m \<longrightarrow> round_continues p j")
  case True
  then show ?thesis by (rule timeout)
next
  case False
  then obtain k where k: "0 \<le> k" "k < m" "\<not> round_continues p k"
    "\<forall>j. 0 \<le> j \<and> j < k \<longrightarrow> round_continues p j"
    by (rule first_stopping_round)
  show ?thesis
  proof (cases "terrence_reply p k")
    case (Inl e)
    with k show ?thesis by (intro terrence_raises [of k e])
  next
    case t: (Inr t)
    show ?thesis
    proof (cases "truthy (extract_final_answer t)")
      case True
      with k t show ?thesis by (intro early_final [of k t])
    next
      case nofinal: False
      show ?thesis
      proof (cases "neil_reply p k")
        case (Inl e)
        with k t nofinal show ?thesis by (intro neil_raises [of k t e])
      next
        case n: (Inr n)
        have agree: "extract_agreement n = Some True"
          using k(3) t nofinal n by (simp add: round_continues_def)
        show ?thesis
        proof (cases "final_reply p k")
          case (Inl e)
          with k t nofinal n agree show ?thesis by (intro final_raises [of k t n e])
        next
          case f: (Inr f)
          show ?thesis
          proof (cases "truthy (extract_final_answer f)")
            case True
            with k t nofinal n agree f show ?thesis by (intro final_ok [of k t n f])
          next
            case False
            with k t nofinal n agree f show ?thesis by (intro final_missing [of k t n f])
          qed
        qed
      qed
    qed
  qed
qed

lemma round_turns_not_agreeing:
  "round_continues p k \<Longrightarrow> x \<in> set (round_turns p k) \<Longrightarrow> \<not> agreeing x"
  by (auto simp: round_continues_def round_turns_def agreeing_def terrence_turn_def neil_turn_def
      split: sum.splits)

lemma history_not_agreeing:
  assumes "\<forall>j. 0 \<le> j \<and> j < k \<longrightarrow> round_continues p j"
  shows "\<forall>x\<in>set (history p k). \<not> agreeing x"
  using assms by (auto simp: history_def dest: round_turns_not_agreeing)

lemma terrence_turn_not_agreeing [simp]: "\<not> agreeing (terrence_turn t)"
  by (simp add: agreeing_def terrence_turn_def)

lemma after_agreement_shape:
  assumes h: "\<forall>x\<in>set h. \<not> agreeing x"
    and rest: "rest = [] \<or> rest = [terrence_turn t] \<or> rest = [terrence_turn t, neil_turn n] \<or>
             rest = [terrence_turn t, neil_turn n, terrence_turn f]"
    and i: "i < length (h @ rest)" "agreeing ((h @ rest) ! i)"
  shows "(\<forall>j. i < j \<and> j < length (h @ rest) \<longrightarrow>
            j = i + 1 \<and> (h @ rest) ! j = terrence_turn f \<and> length rest = 3) \<and>
         (\<forall>j<length (h @ rest). agreeing ((h @ rest) ! j) \<longrightarrow> j = i)"
proof -
  have pos: "j = length h + 1 \<and> 2 \<le> length rest"
    if "j < length (h @ rest)" "agreeing ((h @ rest) ! j)" for j
  proof -
    have "\<not> j < length h" using h that(2) by (auto simp: nth_append)
    then obtain d where d: "j = length h + d" using le_Suc_ex not_less by blast
    then have "agreeing (rest ! d)" "d < length rest" using that by (simp_all add: nth_append)
    then have "d = 1 \<and> 2 \<le> length rest"
      using rest by (auto simp: nth_Cons' split: if_splits)
    then show ?thesis using d by simp
  qed
  have i': "i = length h + 1" using pos [OF i] by simp
  show ?thesis
  proof (intro conjI allI impI)
    fix j
    assume j: "i < j \<and> j < length (h @ rest)"
    then have "length rest = 3 \<and> j = length h + 2" using rest i' by auto
    then show "j = i + 1" "(h @ rest) ! j = terrence_turn f" "length rest = 3"
      using rest i' by (auto simp: nth_append)
  next
    fix j
    assume "j < length (h @ rest)" "agreeing ((h @ rest) ! j)"
    then show "j = i" using pos [of j] i' by simp
  qed
qed

section \<open>The scripted runs, evaluated\<close>

lemma response_plain:
  "extract_final_answer (py ''I calculate 2 + 3 = 5'') = None"
  by code_simp

lemma response_disagree_steps:
  "extract_agreement (py ''<AGREE>false</AGREE> Show the steps.'') = Some False"
  by code_simp

lemma response_disagree_still:
  "extract_agreement (py ''<AGREE>false</AGREE> I still disagree.'') = Some False"
  by code_simp

lemma response_agree:
  "extract_agreement (py ''<AGREE>true</AGREE> Correct.'') = Some True"
  by code_simp

lemma response_final_5:
  "extract_final_answer (py ''<FINAL>5</FINAL>'') = Some (py ''5'')"
  by code_simp

lemma response_no_final:
  "extract_final_answer (py ''The answer is 5'') = None"
  by code_simp

lemma response_empty_final:
  "extract_final_answer (py ''<FINAL></FINAL>'') = Some []"
  by code_simp

lemma response_blank_final:
  "FINAL_TAG_search (py ''<FINAL>   </FINAL>'') = Some (py ''   '')" "py_strip (py ''   '') = []"
  by code_simp+

lemma response_early_final:
  "extract_final_answer (py ''2 + 3 = 5. <FINAL>5</FINAL>'') = Some (py ''5'')"
  by code_simp

lemmas responses = response_plain response_disagree_steps response_disagree_still
  response_agree response_final_5 response_no_final response_empty_final response_early_final

lemma mock_flow_complete_continues:
  "\<forall>j. 0 \<le> j \<and> j < 2 \<longrightarrow> round_continues mock_flow_complete j"
  by (simp add: round_continues_def mock_flow_complete_def truthy_def responses)

lemma mock_never_agrees_continues: "round_continues mock_never_agrees j"
  by (simp add: round_continues_def mock_never_agrees_def truthy_def responses)

lemma str_int_2: "str_int 2 = ''2''"
  by code_simp

lemma run_flow_complete:
  "debate test_settings mock_flow_complete (py ''2 + 3'') None Slow =
     \<lparr>status = COMPLETED, expression = (py ''2 + 3''), final_answer = Some (py ''5''), rounds = 3,
      turns = [terrence_turn (py ''I calculate 2 + 3 = 5''),
               neil_turn (py ''<AGREE>false</AGREE> Show the steps.''),
               terrence_turn (py ''I calculate 2 + 3 = 5''),
               neil_turn (py ''<AGREE>false</AGREE> Show the steps.''),
               terrence_turn (py ''I calculate 2 + 3 = 5''),
               neil_turn (py ''<AGREE>true</AGREE> Correct.''),
               terrence_turn (py ''<FINAL>5</FINAL>'')],
      error_message = None, pace_mode = Slow\<rparr>"
  by code_simp

section \<open>Properties of a debate\<close>

text \<open>
  Claim C1, amended. Take a run in which round \<open>k\<close> is reached, Terrence's response of that
  round holds no final answer that counts, Neil's response carries agreement \<open>true\<close>, and
  the finalization call returns the response \<open>f\<close>. Then the finalization turn is recorded
  after Neil's turn and is the last turn, and no further round runs. If \<open>f\<close> holds a final
  answer that is not empty, the status is \<open>COMPLETED\<close> and that answer is stored; if the
  final answer is absent or empty, the status is \<open>ERROR\<close>, no answer is stored and the
  message says that Terrence failed to provide a final answer after agreement.
  As the claim is written (any final answer that is not absent completes the debate) it
  fails for the response \<^verbatim>\<open><FINAL></FINAL>\<close>: the extracted answer is the empty string,
  which \<^verbatim>\<open>if final_answer:\<close> takes for false.
\<close>

theorem debate_finalization_after_agreement:
  fixes settings p expr a pace
  defines "r \<equiv> debate settings p expr a pace"
  assumes "0 \<le> k" and "k < effective_max_rounds settings a"
    and "\<forall>j. 0 \<le> j \<and> j < k \<longrightarrow> round_continues p j"
    and "terrence_reply p k = Inr t" and "\<not> truthy (extract_final_answer t)"
    and "neil_reply p k = Inr n" and "extract_agreement n = Some True"
    and "final_reply p k = Inr f"
  shows "turns r = history p k @ [terrence_turn t, neil_turn n, terrence_turn f] \<and>
         rounds r = k + 1 \<and>
         (\<forall>s. extract_final_answer f = Some s \<and> s \<noteq> [] \<longrightarrow>
              status r = COMPLETED \<and> final_answer r = Some s) \<and>
         (extract_final_answer f = None \<or> extract_final_answer f = Some [] \<longrightarrow>
              status r = ERROR \<and> final_answer r = None \<and>
              error_message r = Some (py ''Terrence failed to provide final answer after agreement''))"
proof (cases "truthy (extract_final_answer f)")
  case True
  have "r = \<lparr>status = COMPLETED, expression = expr, final_answer = extract_final_answer f,
            rounds = k + 1,
            turns = history p k @ [terrence_turn t, neil_turn n, terrence_turn f],
            error_message = None, pace_mode = pace\<rparr>"
    unfolding r_def using assms(2-9) True by (rule result_final_ok)
  then show ?thesis using True by (auto simp: truthy_def split: option.splits)
next
  case False
  have "r = \<lparr>status = ERROR, expression = expr, final_answer = None, rounds = k + 1,
            turns = history p k @ [terrence_turn t, neil_turn n, terrence_turn f],
            error_message = Some finalize_failure, pace_mode = pace\<rparr>"
    unfolding r_def using assms(2-9) False by (rule result_final_missing)
  then show ?thesis using False by (auto simp: truthy_def finalize_failure_def split: option.splits)
qed

theorem debate_finalization_after_agreement_witness:
  "status (debate test_settings mock_flow_complete (py ''2 + 3'') None Slow) = COMPLETED \<and>
   final_answer (debate test_settings mock_flow_complete (py ''2 + 3'') None Slow) = Some (py ''5'') \<and>
   rounds (debate test_settings mock_flow_complete (py ''2 + 3'') None Slow) = 3 \<and>
   status (debate test_settings mock_final_without_tag (py ''2 + 3'') None Slow) = ERROR \<and>
   error_message (debate test_settings mock_final_without_tag (py ''2 + 3'') None Slow) =
     Some (py ''Terrence failed to provide final answer after agreement'')"
proof -
  have m: "2 < effective_max_rounds test_settings None" "0 < effective_max_rounds test_settings None"
    by (simp_all add: effective_max_rounds_def test_settings_def)
  have a: "terrence_reply mock_flow_complete 2 = Inr (py ''I calculate 2 + 3 = 5'')"
    "neil_reply mock_flow_complete 2 = Inr (py ''<AGREE>true</AGREE> Correct.'')"
    "final_reply mock_flow_complete 2 = Inr (py ''<FINAL>5</FINAL>'')"
    by (simp_all add: mock_flow_complete_def)
  have b: "terrence_reply mock_final_without_tag 0 = Inr (py ''I calculate 2 + 3 = 5'')"
    "neil_reply mock_final_without_tag 0 = Inr (py ''<AGREE>true</AGREE> Correct.'')"
    "final_reply mock_final_without_tag 0 = Inr (py ''The answer is 5'')"
    by (simp_all add: mock_final_without_tag_def)
  have plain: "\<not> truthy (extract_final_answer (py ''I calculate 2 + 3 = 5''))"
    by (simp add: truthy_def response_plain)
  have none: "\<forall>j. 0 \<le> j \<and> j < (0::int) \<longrightarrow> round_continues mock_final_without_tag j"
    by auto
  note w1 = debate_finalization_after_agreement [of 2 test_settings None mock_flow_complete,
      OF _ m(1) mock_flow_complete_continues a(1) plain a(2) response_agree a(3),
      of "(py ''2 + 3'')" Slow]
  note w2 = debate_finalization_after_agreement [of 0 test_settings None mock_final_without_tag,
      OF _ m(2) none b(1) plain b(2) response_agree b(3), of "(py ''2 + 3'')" Slow]
  show ?thesis
    using w1 w2 by (simp add: response_final_5 response_no_final)
qed

lemma run_final_empty_tag:
  "debate test_settings mock_final_empty_tag (py ''2 + 3'') None Slow =
     \<lparr>status = ERROR, expression = (py ''2 + 3''), final_answer = None, rounds = 1,
      turns = [terrence_turn (py ''I calculate 2 + 3 = 5''),
               neil_turn (py ''<AGREE>true</AGREE> Correct.''),
               terrence_turn (py ''<FINAL></FINAL>'')],
      error_message = Some (py ''Terrence failed to provide final answer after agreement''),
      pace_mode = Slow\<rparr>"
  by code_simp

theorem debate_finalization_after_agreement_counterexample:
  "agreement_flag (turns (debate test_settings mock_final_empty_tag (py ''2 + 3'') None Slow) ! 1)
     = Some True \<and>
   content (turns (debate test_settings mock_final_empty_tag (py ''2 + 3'') None Slow) ! 2)
     = (py ''<FINAL></FINAL>'') \<and>
   extract_final_answer (py ''<FINAL></FINAL>'') = Some [] \<and>
   status (debate test_settings mock_final_empty_tag (py ''2 + 3'') None Slow) = ERROR \<and>
   final_answer (debate test_settings mock_final_empty_tag (py ''2 + 3'') None Slow) = None"
  by (simp add: run_final_empty_tag response_empty_final response_agree
      terrence_turn_def neil_turn_def)

text \<open>
  Claim C2. When every round from \<open>0\<close> up to \<open>max_rounds\<close> continues (both clients
  answer, no final answer that counts, no agreement \<open>true\<close>), the status is \<open>TIMEOUT\<close>,
  the final answer is absent and the error message names the round budget.
\<close>

theorem debate_timeout_when_rounds_exhausted:
  fixes settings p expr a pace
  defines "r \<equiv> debate settings p expr a pace"
  assumes "\<forall>j. 0 \<le> j \<and> j < effective_max_rounds settings a \<longrightarrow> round_continues p j"
  shows "status r = TIMEOUT \<and> final_answer r = None \<and>
         error_message r = Some ((py ''Debate did not reach agreement within '') @
                                 py (str_int (effective_max_rounds settings a)) @ (py '' rounds''))"
  unfolding r_def result_timeout [OF assms(2)] by (simp add: timeout_message_def)

theorem debate_timeout_when_rounds_exhausted_witness:
  "status (debate test_settings mock_never_agrees (py ''2 + 3'') (Some 2) Slow) = TIMEOUT \<and>
   final_answer (debate test_settings mock_never_agrees (py ''2 + 3'') (Some 2) Slow) = None \<and>
   error_message (debate test_settings mock_never_agrees (py ''2 + 3'') (Some 2) Slow) =
     Some (py ''Debate did not reach agreement within 2 rounds'')"
proof -
  have "\<forall>j. 0 \<le> j \<and> j < effective_max_rounds test_settings (Some 2)
          \<longrightarrow> round_continues mock_never_agrees j"
    by (simp add: mock_never_agrees_continues)
  from debate_timeout_when_rounds_exhausted [OF this, of "(py ''2 + 3'')" Slow]
  show ?thesis by (simp add: effective_max_rounds_def str_int_2 py_def)
qed

text \<open>
  Claim C5, amended. In the run in which Terrence's responses of the rounds 1 to 3 carry no
  finalization tag, Neil's responses carry agreement \<open>false\<close> in the rounds 1 and 2 and
  agreement \<open>true\<close> in round 3, and the finalization response carries a tagged answer \<open>v\<close>
  that is not empty (with a budget of at least three rounds): the status is \<open>COMPLETED\<close>,
  the rounds completed are 3, the final answer is \<open>v\<close>, and the turn count is 7: three
  turns of Terrence, three of Neil, and the finalization turn. The turn count 5 of the claim
  is that of a run in which Neil agrees in round 2.
\<close>

theorem scenario_three_rounds:
  fixes settings p expr a pace
  defines "r \<equiv> debate settings p expr a pace"
  assumes "3 \<le> effective_max_rounds settings a"
    and "terrence_reply p 0 = Inr t0" and "extract_final_answer t0 = None"
    and "terrence_reply p 1 = Inr t1" and "extract_final_answer t1 = None"
    and "terrence_reply p 2 = Inr t2" and "extract_final_answer t2 = None"
    and "neil_reply p 0 = Inr n0" and "extract_agreement n0 = Some False"
    and "neil_reply p 1 = Inr n1" and "extract_agreement n1 = Some False"
    and "neil_reply p 2 = Inr n2" and "extract_agreement n2 = Some True"
    and "final_reply p 2 = Inr f" and "extract_final_answer f = Some v" and "v \<noteq> []"
  shows "status r = COMPLETED \<and> rounds r = 3 \<and> length (turns r) = 7 \<and>
         final_answer r = Some v"
proof -
  have c0: "round_continues p 0" and c1: "round_continues p 1"
    using assms(3-12) by (simp_all add: round_continues_def truthy_def)
  have pre: "\<forall>j. 0 \<le> j \<and> j < 2 \<longrightarrow> round_continues p j"
  proof (intro allI impI)
    fix j :: int
    assume "0 \<le> j \<and> j < 2"
    then have "j = 0 \<or> j = 1" by auto
    then show "round_continues p j" using c0 c1 by auto
  qed
  have h: "history p 2 = [terrence_turn t0, neil_turn n0, terrence_turn t1, neil_turn n1]"
    using history_step [of 0 p] history_step [of 1 p] assms(3-12)
    by (simp add: round_turns_def)
  have "r = \<lparr>status = COMPLETED, expression = expr, final_answer = extract_final_answer f,
            rounds = 2 + 1,
            turns = history p 2 @ [terrence_turn t2, neil_turn n2, terrence_turn f],
            error_message = None, pace_mode = pace\<rparr>"
    unfolding r_def using assms(2,7,8,13-17) pre
    by (intro result_final_ok) (simp_all add: truthy_def)
  then show ?thesis using h assms(16) by simp
qed

theorem scenario_three_rounds_witness:
  "status (debate test_settings mock_flow_complete (py ''2 + 3'') (Some 5) Slow) = COMPLETED \<and>
   rounds (debate test_settings mock_flow_complete (py ''2 + 3'') (Some 5) Slow) = 3 \<and>
   length (turns (debate test_settings mock_flow_complete (py ''2 + 3'') (Some 5) Slow)) = 7 \<and>
   final_answer (debate test_settings mock_flow_complete (py ''2 + 3'') (Some 5) Slow) = Some (py ''5'')"
proof -
  have m: "3 \<le> effective_max_rounds test_settings (Some 5)"
    by (simp add: effective_max_rounds_def)
  have t: "terrence_reply mock_flow_complete 0 = Inr (py ''I calculate 2 + 3 = 5'')"
    "terrence_reply mock_flow_complete 1 = Inr (py ''I calculate 2 + 3 = 5'')"
    "terrence_reply mock_flow_complete 2 = Inr (py ''I calculate 2 + 3 = 5'')"
    by (simp_all add: mock_flow_complete_def)
  have n: "neil_reply mock_flow_complete 0 = Inr (py ''<AGREE>false</AGREE> Show the steps.'')"
    "neil_reply mock_flow_complete 1 = Inr (py ''<AGREE>false</AGREE> Show the steps.'')"
    "neil_reply mock_flow_complete 2 = Inr (py ''<AGREE>true</AGREE> Correct.'')"
    by (simp_all add: mock_flow_complete_def)
  have f: "final_reply mock_flow_complete 2 = Inr (py ''<FINAL>5</FINAL>'')"
    by (simp add: mock_flow_complete_def)
  have v: "(py ''5'') \<noteq> []" by simp
  show ?thesis
    by (rule scenario_three_rounds [OF m t(1) response_plain t(2) response_plain
          t(3) response_plain n(1) response_disagree_steps n(2) response_disagree_steps
          n(3) response_agree f response_final_5 v])
qed

theorem scenario_three_rounds_counterexample:
  "extract_final_answer (py ''I calculate 2 + 3 = 5'') = None \<and>
   agreement_flag (turns (debate test_settings mock_flow_complete (py ''2 + 3'') None Slow) ! 1)
     = Some False \<and>
   agreement_flag (turns (debate test_settings mock_flow_complete (py ''2 + 3'') None Slow) ! 3)
     = Some False \<and>
   agreement_flag (turns (debate test_settings mock_flow_complete (py ''2 + 3'') None Slow) ! 5)
     = Some True \<and>
   content (turns (debate test_settings mock_flow_complete (py ''2 + 3'') None Slow) ! 6)
     = (py ''<FINAL>5</FINAL>'') \<and>
   status (debate test_settings mock_flow_complete (py ''2 + 3'') None Slow) = COMPLETED \<and>
   rounds (debate test_settings mock_flow_complete (py ''2 + 3'') None Slow) = 3 \<and>
   final_answer (debate test_settings mock_flow_complete (py ''2 + 3'') None Slow) = Some (py ''5'') \<and>
   length (turns (debate test_settings mock_flow_complete (py ''2 + 3'') None Slow)) = 7 \<and>
   length (turns (debate test_settings mock_flow_complete (py ''2 + 3'') None Slow)) \<noteq> 5"
  by (simp add: run_flow_complete response_plain response_disagree_steps response_agree
      terrence_turn_def neil_turn_def)

text \<open>
  Claim C6, amended. When round \<open>k\<close> is reached with every earlier round continuing (so no
  agreement so far) and Terrence's response holds a final answer that is not empty, the
  debate completes at once: the extracted answer is stored, the status is \<open>COMPLETED\<close>,
  and the turn of Terrence is the last turn recorded, with no turn of Neil in that round.
  As the claim is written (any final-answer signal) it fails for the response
  \<^verbatim>\<open><FINAL></FINAL>\<close>: the signal is there, its content is empty, and the round goes on
  to Neil's turn.
\<close>

theorem debate_early_final_answer:
  fixes settings p expr a pace
  defines "r \<equiv> debate settings p expr a pace"
  assumes "0 \<le> k" and "k < effective_max_rounds settings a"
    and "\<forall>j. 0 \<le> j \<and> j < k \<longrightarrow> round_continues p j"
    and "terrence_reply p k = Inr t" and "extract_final_answer t = Some s" and "s \<noteq> []"
  shows "status r = COMPLETED \<and> final_answer r = Some s \<and> rounds r = k + 1 \<and>
         turns r = history p k @ [terrence_turn t]"
proof -
  have "truthy (extract_final_answer t)" using assms(6,7) by (simp add: truthy_def)
  with assms(2-5)
  have "r = \<lparr>status = COMPLETED, expression = expr, final_answer = extract_final_answer t,
            rounds = k + 1, turns = history p k @ [terrence_turn t],
            error_message = None, pace_mode = pace\<rparr>"
    unfolding r_def by (rule result_early_final)
  then show ?thesis using assms(6) by simp
qed

theorem debate_early_final_answer_witness:
  "status (debate test_settings mock_early_final (py ''2 + 3'') None Slow) = COMPLETED \<and>
   final_answer (debate test_settings mock_early_final (py ''2 + 3'') None Slow) = Some (py ''5'') \<and>
   rounds (debate test_settings mock_early_final (py ''2 + 3'') None Slow) = 1 \<and>
   turns (debate test_settings mock_early_final (py ''2 + 3'') None Slow) =
     [terrence_turn (py ''2 + 3 = 5. <FINAL>5</FINAL>'')]"
proof -
  have m: "0 < effective_max_rounds test_settings None"
    by (simp add: effective_max_rounds_def test_settings_def)
  have none: "\<forall>j. 0 \<le> j \<and> j < (0::int) \<longrightarrow> round_continues mock_early_final j"
    by auto
  have t: "terrence_reply mock_early_final 0 = Inr (py ''2 + 3 = 5. <FINAL>5</FINAL>'')"
    by (simp add: mock_early_final_def)
  have v: "(py ''5'') \<noteq> []" by simp
  from debate_early_final_answer [OF _ m none t response_early_final v, of "(py ''2 + 3'')" Slow]
  show ?thesis by simp
qed

lemma run_early_empty_final:
  "debate test_settings mock_early_empty_final (py ''2 + 3'') (Some 1) Slow =
     \<lparr>status = TIMEOUT, expression = (py ''2 + 3''), final_answer = None, rounds = 1,
      turns = [terrence_turn (py ''<FINAL></FINAL>''),
               neil_turn (py ''<AGREE>false</AGREE> I still disagree.'')],
      error_message = Some (py ''Debate did not reach agreement within 1 rounds''),
      pace_mode = Slow\<rparr>"
  by code_simp

theorem debate_early_final_answer_counterexample:
  "extract_final_answer (py ''<FINAL></FINAL>'') = Some [] \<and>
   content (turns (debate test_settings mock_early_empty_final (py ''2 + 3'') (Some 1) Slow) ! 0)
     = (py ''<FINAL></FINAL>'') \<and>
   speaker (turns (debate test_settings mock_early_empty_final (py ''2 + 3'') (Some 1) Slow) ! 1)
     = (py ''Neil'') \<and>
   final_answer (debate test_settings mock_early_empty_final (py ''2 + 3'') (Some 1) Slow) = None \<and>
   status (debate test_settings mock_early_empty_final (py ''2 + 3'') (Some 1) Slow) = TIMEOUT"
  by (simp add: run_early_empty_final response_empty_final terrence_turn_def neil_turn_def)

text \<open>
  Claim C7, amended. For every run, whatever the clients answer or raise: when
  \<open>max_rounds\<close> is not negative the rounds completed are at most \<open>max_rounds\<close>; when it is
  negative, \<^verbatim>\<open>range(max_rounds)\<close> is empty, no round runs and the rounds completed are
  0, which is above \<open>max_rounds\<close>.
\<close>

theorem rounds_within_budget:
  fixes settings p expr a pace
  defines "r \<equiv> debate settings p expr a pace"
  shows "(0 \<le> effective_max_rounds settings a \<longrightarrow> rounds r \<le> effective_max_rounds settings a) \<and>
         (effective_max_rounds settings a < 0 \<longrightarrow> rounds r = 0)"
proof (cases rule: debate_cases [where m = "effective_max_rounds settings a" and p = p])
  case timeout
  then show ?thesis unfolding r_def by (simp add: result_timeout)
next
  case (terrence_raises k e)
  then show ?thesis unfolding r_def by (simp add: result_terrence_raises)
next
  case (early_final k t)
  then show ?thesis unfolding r_def by (simp add: result_early_final)
next
  case (neil_raises k t e)
  then show ?thesis unfolding r_def by (simp add: result_neil_raises)
next
  case (final_raises k t n e)
  then show ?thesis unfolding r_def by (simp add: result_final_raises)
next
  case (final_ok k t n f)
  then show ?thesis unfolding r_def by (simp add: result_final_ok)
next
  case (final_missing k t n f)
  then show ?thesis unfolding r_def by (simp add: result_final_missing)
qed

lemma run_negative_budget:
  "debate test_settings mock_never_agrees (py ''2 + 3'') (Some (- 1)) Slow =
     \<lparr>status = TIMEOUT, expression = (py ''2 + 3''), final_answer = None, rounds = 0,
      turns = [],
      error_message = Some (py ''Debate did not reach agreement within -1 rounds''),
      pace_mode = Slow\<rparr>"
  by code_simp

theorem rounds_within_budget_counterexample:
  "effective_max_rounds test_settings (Some (- 1)) = - 1 \<and>
   rounds (debate test_settings mock_never_agrees (py ''2 + 3'') (Some (- 1)) Slow) = 0 \<and>
   \<not> rounds (debate test_settings mock_never_agrees (py ''2 + 3'') (Some (- 1)) Slow)
       \<le> effective_max_rounds test_settings (Some (- 1))"
  by (simp add: run_negative_budget effective_max_rounds_def)

theorem rounds_within_budget_witness:
  "rounds (debate test_settings mock_never_agrees (py ''2 + 3'') (Some 2) Slow) \<le> 2 \<and>
   rounds (debate test_settings mock_never_agrees (py ''2 + 3'') (Some (- 1)) Slow) = 0"
  using rounds_within_budget [of test_settings "Some 2" mock_never_agrees "(py ''2 + 3'')" Slow]
    rounds_within_budget [of test_settings "Some (- 1)" mock_never_agrees "(py ''2 + 3'')" Slow]
  by (simp add: effective_max_rounds_def)

lemma turns_after_agreement:
  assumes ts: "ts = h @ rest" and h: "\<forall>x\<in>set h. \<not> agreeing x"
    and rest: "rest = [] \<or> rest = [terrence_turn t] \<or> rest = [terrence_turn t, neil_turn n] \<or>
               rest = [terrence_turn t, neil_turn n, terrence_turn f]"
    and fr: "length rest = 3 \<longrightarrow> fr = Inr f"
    and i: "i < length ts" "agreeing (ts ! i)"
  shows "(\<forall>j. i < j \<and> j < length ts \<longrightarrow>
            j = i + 1 \<and> speaker (ts ! j) = (py ''Terrence'') \<and> fr = Inr (content (ts ! j))) \<and>
         (\<forall>j<length ts. agreeing (ts ! j) \<longrightarrow> j = i)"
proof -
  have S: "(\<forall>j. i < j \<and> j < length ts \<longrightarrow>
              j = i + 1 \<and> ts ! j = terrence_turn f \<and> length rest = 3) \<and>
           (\<forall>j<length ts. agreeing (ts ! j) \<longrightarrow> j = i)"
    using h rest i unfolding ts by (rule after_agreement_shape)
  show ?thesis
  proof (intro conjI allI impI)
    fix j
    assume "i < j \<and> j < length ts"
    with S have a: "j = i + 1" and b: "ts ! j = terrence_turn f" and c: "length rest = 3"
      by blast+
    show "j = i + 1" by (rule a)
    show "speaker (ts ! j) = (py ''Terrence'')" by (simp add: b terrence_turn_def)
    show "fr = Inr (content (ts ! j))" using fr c by (simp add: b terrence_turn_def)
  next
    fix j
    assume "j < length ts" "agreeing (ts ! j)"
    with S show "j = i" by blast
  qed
qed

text \<open>
  Claim C8. In the turn list of every run: if the turn at index \<open>i\<close> is a turn of Neil
  whose agreement flag is true, then any later turn stands at index \<open>i + 1\<close> (so there is
  at most one), is a turn of Terrence and records the response of the finalization call of
  the last round; and no other turn of the list is a turn of Neil with agreement flag true.
  (When the finalization call raises, no turn follows.)
\<close>

theorem no_critic_turn_after_agreement:
  fixes settings p expr a pace
  defines "r \<equiv> debate settings p expr a pace"
  assumes "i < length (turns r)" and "agreeing (turns r ! i)"
  shows "(\<forall>j. i < j \<and> j < length (turns r) \<longrightarrow>
            j = i + 1 \<and> speaker (turns r ! j) = (py ''Terrence'') \<and>
            final_reply p (rounds r - 1) = Inr (content (turns r ! j))) \<and>
         (\<forall>j<length (turns r). agreeing (turns r ! j) \<longrightarrow> j = i)"
proof (cases rule: debate_cases [where m = "effective_max_rounds settings a" and p = p])
  case timeout
  then have "\<forall>j. 0 \<le> j \<and> j < max 0 (effective_max_rounds settings a)
               \<longrightarrow> round_continues p j"
    by auto
  then have h: "\<forall>x\<in>set (history p (max 0 (effective_max_rounds settings a))). \<not> agreeing x"
    by (rule history_not_agreeing)
  have ts: "turns r = history p (max 0 (effective_max_rounds settings a)) @ []"
    unfolding r_def using timeout by (simp add: result_timeout)
  show ?thesis
    by (rule turns_after_agreement [OF ts h _ _ assms(2,3)]) simp_all
next
  case (terrence_raises k e)
  then have ts: "turns r = history p k @ []"
    unfolding r_def by (simp add: result_terrence_raises)
  show ?thesis
    by (rule turns_after_agreement
          [OF ts history_not_agreeing [OF terrence_raises(3)] _ _ assms(2,3)]) simp_all
next
  case (early_final k t)
  then have ts: "turns r = history p k @ [terrence_turn t]"
    unfolding r_def by (simp add: result_early_final)
  show ?thesis
    by (rule turns_after_agreement
          [OF ts history_not_agreeing [OF early_final(3)] _ _ assms(2,3)]) simp_all
next
  case (neil_raises k t e)
  then have ts: "turns r = history p k @ [terrence_turn t]"
    unfolding r_def by (simp add: result_neil_raises)
  show ?thesis
    by (rule turns_after_agreement
          [OF ts history_not_agreeing [OF neil_raises(3)] _ _ assms(2,3)]) simp_all
next
  case (final_raises k t n e)
  then have ts: "turns r = history p k @ [terrence_turn t, neil_turn n]"
    unfolding r_def by (simp add: result_final_raises)
  show ?thesis
    by (rule turns_after_agreement
          [OF ts history_not_agreeing [OF final_raises(3)] _ _ assms(2,3)]) simp_all
next
  case (final_ok k t n f)
  then have "r = \<lparr>status = COMPLETED, expression = expr,
          final_answer = extract_final_answer f, rounds = k + 1,
          turns = history p k @ [terrence_turn t, neil_turn n, terrence_turn f],
          error_message = None, pace_mode = pace\<rparr>"
    unfolding r_def by (intro result_final_ok)
  then have ts: "turns r = history p k @ [terrence_turn t, neil_turn n, terrence_turn f]"
    and k: "rounds r - 1 = k" by simp_all
  have fr: "length [terrence_turn t, neil_turn n, terrence_turn f] = 3
              \<longrightarrow> final_reply p (rounds r - 1) = Inr f"
    using final_ok(8) k by simp
  show ?thesis
    by (rule turns_after_agreement
          [OF ts history_not_agreeing [OF final_ok(3)] _ fr assms(2,3)]) simp
next
  case (final_missing k t n f)
  then have "r = \<lparr>status = ERROR, expression = expr, final_answer = None, rounds = k + 1,
          turns = history p k @ [terrence_turn t, neil_turn n, terrence_turn f],
          error_message = Some finalize_failure, pace_mode = pace\<rparr>"
    unfolding r_def by (intro result_final_missing)
  then have ts: "turns r = history p k @ [terrence_turn t, neil_turn n, terrence_turn f]"
    and k: "rounds r - 1 = k" by simp_all
  have fr: "length [terrence_turn t, neil_turn n, terrence_turn f] = 3
              \<longrightarrow> final_reply p (rounds r - 1) = Inr f"
    using final_missing(8) k by simp
  show ?thesis
    by (rule turns_after_agreement
          [OF ts history_not_agreeing [OF final_missing(3)] _ fr assms(2,3)]) simp
qed

theorem no_critic_turn_after_agreement_witness:
  "agreeing (turns (debate test_settings mock_flow_complete (py ''2 + 3'') None Slow) ! 5) \<and>
   length (turns (debate test_settings mock_flow_complete (py ''2 + 3'') None Slow)) = 7 \<and>
   speaker (turns (debate test_settings mock_flow_complete (py ''2 + 3'') None Slow) ! 6)
     = (py ''Terrence'') \<and>
   final_reply mock_flow_complete 2 =
     Inr (content (turns (debate test_settings mock_flow_complete (py ''2 + 3'') None Slow) ! 6)) \<and>
   \<not> agreeing (turns (debate test_settings mock_flow_complete (py ''2 + 3'') None Slow) ! 1) \<and>
   \<not> agreeing (turns (debate test_settings mock_flow_complete (py ''2 + 3'') None Slow) ! 3)"
proof -
  let ?r = "debate test_settings mock_flow_complete (py ''2 + 3'') None Slow"
  have len: "length (turns ?r) = 7"
    by (simp add: run_flow_complete)
  have rnd: "rounds ?r - 1 = 2"
    by (simp add: run_flow_complete)
  have agr: "agreeing (turns ?r ! 5)"
    by (simp add: run_flow_complete agreeing_def neil_turn_def response_agree)
  have "5 < length (turns ?r)" using len by simp
  from no_critic_turn_after_agreement [OF this agr]
  have later: "\<forall>j. 5 < j \<and> j < 7 \<longrightarrow> j = 5 + 1 \<and> speaker (turns ?r ! j) = (py ''Terrence'') \<and>
                 final_reply mock_flow_complete 2 = Inr (content (turns ?r ! j))"
    and only: "\<forall>j<7. agreeing (turns ?r ! j) \<longrightarrow> j = 5"
    unfolding len rnd by blast+
  from later have a: "speaker (turns ?r ! 6) = (py ''Terrence'')"
    and b: "final_reply mock_flow_complete 2 = Inr (content (turns ?r ! 6))"
    by simp_all
  have c: "\<not> agreeing (turns ?r ! 1)"
    using only [rule_format, of 1] by auto
  have d: "\<not> agreeing (turns ?r ! 3)"
    using only [rule_format, of 3] by auto
  show ?thesis by (intro conjI agr len a b c d)
qed

text \<open>
  Claim C10. Take a run in which Neil agrees in round \<open>k\<close> and the finalization response
  \<open>f\<close> holds a finalization tag whose content \<open>inner\<close>, as the pattern finds it, is empty
  once its white space is removed. Then the answer counts as absent: the status is
  \<open>ERROR\<close> with the message that Terrence failed to provide a final answer after
  agreement, and no final answer is stored.
\<close>

theorem empty_final_tag_after_agreement:
  fixes settings p expr a pace
  defines "r \<equiv> debate settings p expr a pace"
  assumes "0 \<le> k" and "k < effective_max_rounds settings a"
    and "\<forall>j. 0 \<le> j \<and> j < k \<longrightarrow> round_continues p j"
    and "terrence_reply p k = Inr t" and "\<not> truthy (extract_final_answer t)"
    and "neil_reply p k = Inr n" and "extract_agreement n = Some True"
    and "final_reply p k = Inr f"
    and "FINAL_TAG_search f = Some inner" and "py_strip inner = []"
  shows "status r = ERROR \<and> final_answer r = None \<and>
         error_message r = Some (py ''Terrence failed to provide final answer after agreement'') \<and>
         turns r = history p k @ [terrence_turn t, neil_turn n, terrence_turn f]"
proof -
  have "extract_final_answer f = Some []"
    using assms(10,11) by (simp add: extract_final_answer_def)
  then have "\<not> truthy (extract_final_answer f)" by (simp add: truthy_def)
  with assms(2-9)
  have "r = \<lparr>status = ERROR, expression = expr, final_answer = None, rounds = k + 1,
            turns = history p k @ [terrence_turn t, neil_turn n, terrence_turn f],
            error_message = Some finalize_failure, pace_mode = pace\<rparr>"
    unfolding r_def by (rule result_final_missing)
  then show ?thesis by (simp add: finalize_failure_def)
qed

theorem empty_final_tag_after_agreement_witness:
  "status (debate test_settings mock_final_blank_tag (py ''2 + 3'') None Slow) = ERROR \<and>
   final_answer (debate test_settings mock_final_blank_tag (py ''2 + 3'') None Slow) = None \<and>
   error_message (debate test_settings mock_final_blank_tag (py ''2 + 3'') None Slow) =
     Some (py ''Terrence failed to provide final answer after agreement'') \<and>
   turns (debate test_settings mock_final_blank_tag (py ''2 + 3'') None Slow) =
     [terrence_turn (py ''I calculate 2 + 3 = 5''), neil_turn (py ''<AGREE>true</AGREE> Correct.''),
      terrence_turn (py ''<FINAL>   </FINAL>'')]"
proof -
  have m: "0 < effective_max_rounds test_settings None"
    by (simp add: effective_max_rounds_def test_settings_def)
  have none: "\<forall>j. 0 \<le> j \<and> j < (0::int) \<longrightarrow> round_continues mock_final_blank_tag j"
    by auto
  have b: "terrence_reply mock_final_blank_tag 0 = Inr (py ''I calculate 2 + 3 = 5'')"
    "neil_reply mock_final_blank_tag 0 = Inr (py ''<AGREE>true</AGREE> Correct.'')"
    "final_reply mock_final_blank_tag 0 = Inr (py ''<FINAL>   </FINAL>'')"
    by (simp_all add: mock_final_blank_tag_def)
  have plain: "\<not> truthy (extract_final_answer (py ''I calculate 2 + 3 = 5''))"
    by (simp add: truthy_def response_plain)
  from empty_final_tag_after_agreement [OF _ m none b(1) plain b(2) response_agree b(3)
      response_blank_final, of "(py ''2 + 3'')" Slow]
  show ?thesis by simp
qed

end
